theory Spec2Isabelle
  imports Complex_Main
begin

section \<open>The mask editor of MaskingCanvas.tsx\<close>

text \<open>
  The component keeps its gesture flags, its last point and its undo history in refs, and
  its brush settings, viewport transform and history controls in React state. The model
  gathers all of them in one record, \<open>editor\<close>, and every handler of the component is a
  function from the editor (and the event) to the editor that the handler leaves behind.

  A handler that can end in an uncaught exception returns \<open>error + editor\<close>, with
  \<open>Inl\<close> the exception; the model does not follow the session after an exception. Events
  are handled one after the other: each handler sees the refs and the state as the handler
  before it left them. \<open>preventDefault\<close> has no effect on the editor and is left out.
\<close>

subsection \<open>Numbers\<close>

text \<open>
  A JavaScript number is an IEEE 754 double. The finite doubles are rationals, and each
  arithmetic operation of the code returns the exact result rounded to a double. The model
  keeps the values as rationals and takes the rounding as a parameter \<open>rd\<close> of every
  handler that computes: the sum of the code is \<open>rd (a + b)\<close>, a decimal literal such as
  \<open>1.1\<close> is \<open>rd (11 / 10)\<close>, and small integer literals are themselves. Comparisons
  are exact. With the identity for \<open>rd\<close> the handlers compute in exact rational
  arithmetic; with \<open>round_double\<close> they compute as the platform does.

  \<open>round_double\<close> rounds to the nearest number with a significand of 53 bits, ties to
  the even significand, the rounding of IEEE 754 binary64. The exponent is not bounded:
  overflow to an infinity, subnormal numbers and NaN are outside the model, and so is the
  division by zero, which gives 0 here.
\<close>

type_synonym rounding = "rat \<Rightarrow> rat"

definition pow2 :: "int \<Rightarrow> rat" where
  "pow2 k = (if 0 \<le> k then 2 ^ nat k else 1 / 2 ^ nat (- k))"

text \<open>The binary exponent of a positive number: \<open>2 ^ expo x \<le> x < 2 ^ (expo x + 1)\<close>.\<close>

function expo :: "rat \<Rightarrow> int" where
  "expo x = (if 2 \<le> x then expo (x / 2) + 1
             else if 0 < x \<and> x < 1 then expo (x * 2) - 1
             else 0)"
  by pat_completeness auto
termination
proof (relation "measure (\<lambda>x. if 1 \<le> x then nat \<lfloor>x\<rfloor> else nat \<lceil>1 / x\<rceil> + 1)")
  show "wf (measure (\<lambda>x::rat. if 1 \<le> x then nat \<lfloor>x\<rfloor> else nat \<lceil>1 / x\<rceil> + 1))"
    by simp
next
  fix x :: rat
  assume x: "2 \<le> x"
  have m1: "(if 1 \<le> x / 2 then nat \<lfloor>x / 2\<rfloor> else nat \<lceil>1 / (x / 2)\<rceil> + 1) = nat \<lfloor>x / 2\<rfloor>"
    using x by simp
  have m2: "(if 1 \<le> x then nat \<lfloor>x\<rfloor> else nat \<lceil>1 / x\<rceil> + 1) = nat \<lfloor>x\<rfloor>"
    using x by simp
  have "of_int \<lfloor>x / 2\<rfloor> \<le> x / 2" by (rule of_int_floor_le)
  also have "\<dots> \<le> x - 1" using x by simp
  finally have "of_int (\<lfloor>x / 2\<rfloor> + 1) \<le> x" by simp
  then have a: "\<lfloor>x / 2\<rfloor> + 1 \<le> \<lfloor>x\<rfloor>" by (simp only: le_floor_iff)
  have "of_int (2::int) \<le> x" using x by simp
  then have b: "2 \<le> \<lfloor>x\<rfloor>" by (simp only: le_floor_iff)
  from a b have "nat \<lfloor>x / 2\<rfloor> < nat \<lfloor>x\<rfloor>" by linarith
  then show "(x / 2, x) \<in> measure (\<lambda>x. if 1 \<le> x then nat \<lfloor>x\<rfloor> else nat \<lceil>1 / x\<rceil> + 1)"
    unfolding in_measure m1 m2 .
next
  fix x :: rat
  assume "\<not> 2 \<le> x" and x: "0 < x \<and> x < 1"
  have m2: "(if 1 \<le> x then nat \<lfloor>x\<rfloor> else nat \<lceil>1 / x\<rceil> + 1) = nat \<lceil>1 / x\<rceil> + 1"
    using x by simp
  have "of_int (1::int) < 1 / x" using x by simp
  then have "1 < \<lceil>1 / x\<rceil>" by (simp only: less_ceiling_iff)
  then have c2: "2 \<le> nat \<lceil>1 / x\<rceil>" by linarith
  show "(x * 2, x) \<in> measure (\<lambda>x. if 1 \<le> x then nat \<lfloor>x\<rfloor> else nat \<lceil>1 / x\<rceil> + 1)"
  proof (cases "1 \<le> x * 2")
    case True
    then have m1: "(if 1 \<le> x * 2 then nat \<lfloor>x * 2\<rfloor> else nat \<lceil>1 / (x * 2)\<rceil> + 1) = nat \<lfloor>x * 2\<rfloor>"
      by simp
    have "x * 2 < of_int (2::int)" using x by simp
    then have "\<lfloor>x * 2\<rfloor> < 2" by (simp only: floor_less_iff)
    with c2 have "nat \<lfloor>x * 2\<rfloor> < nat \<lceil>1 / x\<rceil> + 1" by linarith
    then show ?thesis unfolding in_measure m1 m2 .
  next
    case False
    then have m1: "(if 1 \<le> x * 2 then nat \<lfloor>x * 2\<rfloor> else nat \<lceil>1 / (x * 2)\<rceil> + 1)
        = nat \<lceil>1 / (x * 2)\<rceil> + 1"
      by simp
    from False have y: "2 < 1 / x" using x by (simp add: field_simps)
    have c: "of_int \<lceil>1 / (x * 2)\<rceil> < 1 / (x * 2) + 1"
      using ceiling_correct [of "1 / (x * 2)"] by linarith
    have h: "1 / (x * 2) = (1 / x) / 2" by simp
    have "\<And>y::rat. 2 < y \<Longrightarrow> y / 2 + 1 \<le> y" by linarith
    from this [OF y] have d: "1 / (x * 2) + 1 \<le> 1 / x" unfolding h .
    have "1 / x \<le> of_int \<lceil>1 / x\<rceil>" by (rule le_of_int_ceiling)
    with c d have "(of_int \<lceil>1 / (x * 2)\<rceil> :: rat) < of_int \<lceil>1 / x\<rceil>" by linarith
    then have "\<lceil>1 / (x * 2)\<rceil> < \<lceil>1 / x\<rceil>" by (simp only: of_int_less_iff)
    with c2 have "nat \<lceil>1 / (x * 2)\<rceil> + 1 < nat \<lceil>1 / x\<rceil> + 1" by linarith
    then show ?thesis unfolding in_measure m1 m2 .
  qed
qed

declare expo.simps [simp del]

text \<open>Rounding to the nearest integer, ties to the even one.\<close>

definition round_even :: "rat \<Rightarrow> int" where
  "round_even x =
     (let n = \<lfloor>x\<rfloor>; f = x - of_int n
      in if f < 1 / 2 then n else if 1 / 2 < f then n + 1 else if even n then n else n + 1)"

text \<open>
  A positive number is rounded to the nearest multiple of its unit in the last place, the
  53rd bit of its significand.
\<close>

definition round_pos :: "rat \<Rightarrow> rat" where
  "round_pos x = (let ulp = pow2 (expo x) / 2 ^ 52 in ulp * of_int (round_even (x / ulp)))"

definition round_double :: rounding where
  "round_double x = (if x = 0 then 0 else if 0 < x then round_pos x else - round_pos (- x))"

text \<open>
  A rounding is accurate to \<open>u\<close> when the relative error of every result is at most \<open>u\<close>:
  the identity is accurate to 0, \<open>round_double\<close> to \<open>2 ^ -53\<close>.
\<close>

definition accurate :: "rat \<Rightarrow> rounding \<Rightarrow> bool" where
  "accurate u rd = (\<forall>x. \<bar>rd x - x\<bar> \<le> u * \<bar>x\<bar>)"

subsection \<open>Constants and data\<close>

definition MIN_SCALE :: "rounding \<Rightarrow> rat" where
  "MIN_SCALE rd = rd (2 / 10)"

definition MAX_SCALE :: rat where
  "MAX_SCALE = 5"

record Transform =
  scale :: rat
  offsetX :: rat
  offsetY :: rat

text \<open>The exceptions of the platform that the handlers can run into.\<close>

datatype error = IndexSizeError | TypeError

text \<open>
  A pixel of the canvas: premultiplied colour channels and alpha, each between 0 and 1.
  The bitmap of a canvas and of an \<open>ImageData\<close> is the row-major list of its pixels.
\<close>

record pixel =
  red :: rat
  green :: rat
  blue :: rat
  alpha :: rat

definition transparent :: pixel where
  "transparent = \<lparr>red = 0, green = 0, blue = 0, alpha = 0\<rparr>"

record ImageData =
  iwidth :: nat
  iheight :: nat
  idata :: "pixel list"

text \<open>
  The canvas element behind \<open>canvasRef\<close>. \<open>has2d\<close> says whether \<open>getContext('2d')\<close>
  hands out a context.
\<close>

record canvas_el =
  cwidth :: nat
  cheight :: nat
  cdata :: "pixel list"
  has2d :: bool

text \<open>The container element behind \<open>containerRef\<close>: its bounding rectangle and cursor.\<close>

record container_el =
  rleft :: rat
  rtop :: rat
  rwidth :: rat
  rheight :: rat
  cursor :: string

text \<open>An image, by its natural size: the loaded image and the element behind \<open>imageRef\<close>.\<close>

record image_el =
  naturalWidth :: nat
  naturalHeight :: nat

datatype brush_shape = Circle | Square

record history =
  stack :: "ImageData list"
  index :: int

record history_controls =
  canUndo :: bool
  canRedo :: bool

record editor =
  canvasRef :: "canvas_el option"
  imageRef :: "image_el option"
  containerRef :: "container_el option"
  isDrawingRef :: bool
  isPanningRef :: bool
  lastPointRef :: "(rat \<times> rat) option"
  historyRef :: history
  brushSize :: rat
  isErasing :: bool
  transform :: Transform
  brushShape :: brush_shape
  brushOpacity :: rat
  historyControls :: history_controls

record pointer_event =
  button :: int
  clientX :: rat
  clientY :: rat

record wheel_event =
  wheelX :: rat
  wheelY :: rat
  deltaY :: rat

record keyboard_event =
  key :: string
  ctrlKey :: bool
  metaKey :: bool

subsection \<open>The 2D context\<close>

text \<open>
  Which pixels a stroke covers is decided by the rasteriser of the platform, which is not
  part of the component. It is a parameter of the model: for the stroke that \<open>drawLine\<close>
  sets up (join, cap, width and the two end points) it gives the coverage of the pixel in
  column \<open>x\<close> and row \<open>y\<close>.
\<close>

record stroke_path =
  lineJoin :: string
  lineCap :: string
  lineWidth :: rat
  fromX :: rat
  fromY :: rat
  toX :: rat
  toY :: rat

type_synonym rasteriser = "stroke_path \<Rightarrow> nat \<Rightarrow> nat \<Rightarrow> rat"

datatype composite_op = SourceOver | DestinationOut

text \<open>A stroke style \<open>rgba(r, g, b, a)\<close>.\<close>

record rgba =
  styleR :: nat
  styleG :: nat
  styleB :: nat
  styleA :: rat

text \<open>The premultiplied source pixel of a style under a coverage.\<close>

definition source_pixel :: "rgba \<Rightarrow> rat \<Rightarrow> pixel" where
  "source_pixel s cov =
     \<lparr>red = of_nat (styleR s) / 255 * (styleA s * cov),
      green = of_nat (styleG s) / 255 * (styleA s * cov),
      blue = of_nat (styleB s) / 255 * (styleA s * cov),
      alpha = styleA s * cov\<rparr>"

text \<open>
  The two compositing operators that \<open>drawLine\<close> selects: \<open>source-over\<close> puts the
  source on top of the destination, \<open>destination-out\<close> keeps the destination where the
  source is absent.
\<close>

fun composite :: "composite_op \<Rightarrow> pixel \<Rightarrow> pixel \<Rightarrow> pixel" where
  "composite SourceOver s d =
     \<lparr>red = red s + red d * (1 - alpha s),
      green = green s + green d * (1 - alpha s),
      blue = blue s + blue d * (1 - alpha s),
      alpha = alpha s + alpha d * (1 - alpha s)\<rparr>"
| "composite DestinationOut s d =
     \<lparr>red = red d * (1 - alpha s),
      green = green d * (1 - alpha s),
      blue = blue d * (1 - alpha s),
      alpha = alpha d * (1 - alpha s)\<rparr>"

definition stroke :: "rasteriser \<Rightarrow> stroke_path \<Rightarrow> composite_op \<Rightarrow> rgba \<Rightarrow> canvas_el \<Rightarrow> canvas_el" where
  "stroke rast path op style c =
     c\<lparr>cdata :=
         map (\<lambda>i. composite op
                     (source_pixel style (rast path (i mod cwidth c) (i div cwidth c)))
                     (cdata c ! i))
             [0..<length (cdata c)]\<rparr>"

definition getContext :: "canvas_el \<Rightarrow> canvas_el option" where
  "getContext c = (if has2d c then Some c else None)"

text \<open>\<open>getImageData(0, 0, width, height)\<close>: a copy of the bitmap; it throws on an empty rectangle.\<close>

definition getImageData :: "canvas_el \<Rightarrow> error + ImageData" where
  "getImageData c =
     (if cwidth c = 0 \<or> cheight c = 0 then Inl IndexSizeError
      else Inr \<lparr>iwidth = cwidth c, iheight = cheight c, idata = cdata c\<rparr>)"

text \<open>\<open>clearRect(0, 0, width, height)\<close>: every pixel of the canvas becomes transparent.\<close>

definition clearRect :: "canvas_el \<Rightarrow> canvas_el" where
  "clearRect c = c\<lparr>cdata := map (\<lambda>_. transparent) (cdata c)\<rparr>"

text \<open>
  \<open>putImageData(img, 0, 0)\<close>: the pixels of the image replace those of the canvas
  where the image, placed at the origin, lies over the canvas.
\<close>

definition putImageData :: "ImageData \<Rightarrow> canvas_el \<Rightarrow> canvas_el" where
  "putImageData img c =
     c\<lparr>cdata :=
         map (\<lambda>i. if i mod cwidth c < iwidth img \<and> i div cwidth c < iheight img
                   then idata img ! (i div cwidth c * iwidth img + i mod cwidth c)
                   else cdata c ! i)
             [0..<length (cdata c)]\<rparr>"

text \<open>Assigning \<open>canvas.width\<close> and \<open>canvas.height\<close> resets the bitmap to transparent.\<close>

definition resize_canvas :: "nat \<Rightarrow> nat \<Rightarrow> canvas_el \<Rightarrow> canvas_el" where
  "resize_canvas w h c = c\<lparr>cwidth := w, cheight := h, cdata := replicate (w * h) transparent\<rparr>"

text \<open>\<open>xs[i]\<close> of JavaScript: \<open>undefined\<close> outside the array.\<close>

definition js_index :: "'a list \<Rightarrow> int \<Rightarrow> 'a option" where
  "js_index xs i = (if 0 \<le> i \<and> i < int (length xs) then Some (xs ! nat i) else None)"

text \<open>\<open>xs.slice(0, end)\<close> of JavaScript: a negative end counts from the end of the array.\<close>

definition slice0 :: "'a list \<Rightarrow> int \<Rightarrow> 'a list" where
  "slice0 xs end = (if end < 0 then take (nat (int (length xs) + end)) xs else take (nat end) xs)"

subsection \<open>The history\<close>

definition updateHistoryControls :: "editor \<Rightarrow> editor" where
  "updateHistoryControls e =
     e\<lparr>historyControls :=
         \<lparr>canUndo = index (historyRef e) > 0,
          canRedo = index (historyRef e) < int (length (stack (historyRef e))) - 1\<rparr>\<rparr>"

definition saveHistory :: "editor \<Rightarrow> error + editor" where
  "saveHistory e =
     (case canvasRef e of
        None \<Rightarrow> Inr e
      | Some c \<Rightarrow>
          (case getContext c of
             None \<Rightarrow> Inr e
           | Some ctx \<Rightarrow>
               (case getImageData ctx of
                  Inl err \<Rightarrow> Inl err
                | Inr imageData \<Rightarrow>
                    let newStack = slice0 (stack (historyRef e)) (index (historyRef e) + 1) @ [imageData]
                    in Inr (updateHistoryControls
                         (e\<lparr>historyRef := \<lparr>stack = newStack, index = int (length newStack) - 1\<rparr>\<rparr>)))))"

definition handleUndo :: "editor \<Rightarrow> error + editor" where
  "handleUndo e =
     (if index (historyRef e) > 0 then
        let newIndex = index (historyRef e) - 1;
            finish = (\<lambda>e'. Inr (updateHistoryControls
                     (e'\<lparr>historyRef := (historyRef e')\<lparr>index := newIndex\<rparr>\<rparr>)))
        in (case canvasRef e of
              None \<Rightarrow> finish e
            | Some c \<Rightarrow>
                (case getContext c of
                   None \<Rightarrow> finish e
                 | Some ctx \<Rightarrow>
                     (case js_index (stack (historyRef e)) newIndex of
                        None \<Rightarrow> Inl TypeError
                      | Some img \<Rightarrow> finish (e\<lparr>canvasRef := Some (putImageData img (clearRect ctx))\<rparr>))))
      else Inr e)"

definition handleRedo :: "editor \<Rightarrow> error + editor" where
  "handleRedo e =
     (if index (historyRef e) < int (length (stack (historyRef e))) - 1 then
        let newIndex = index (historyRef e) + 1;
            finish = (\<lambda>e'. Inr (updateHistoryControls
                     (e'\<lparr>historyRef := (historyRef e')\<lparr>index := newIndex\<rparr>\<rparr>)))
        in (case canvasRef e of
              None \<Rightarrow> finish e
            | Some c \<Rightarrow>
                (case getContext c of
                   None \<Rightarrow> finish e
                 | Some ctx \<Rightarrow>
                     (case js_index (stack (historyRef e)) newIndex of
                        None \<Rightarrow> Inl TypeError
                      | Some img \<Rightarrow> finish (e\<lparr>canvasRef := Some (putImageData img (clearRect ctx))\<rparr>))))
      else Inr e)"

subsection \<open>The viewport\<close>

definition resetView :: "rounding \<Rightarrow> editor \<Rightarrow> editor" where
  "resetView rd e =
     (case containerRef e of
        None \<Rightarrow> e
      | Some container \<Rightarrow>
          (case imageRef e of
             None \<Rightarrow> e
           | Some img \<Rightarrow>
               if naturalWidth img = 0 \<or> naturalHeight img = 0 then e
               else
                 let scaleX = rd (rwidth container / of_nat (naturalWidth img));
                     scaleY = rd (rheight container / of_nat (naturalHeight img));
                     initialScale = min (min scaleX scaleY) 1
                 in e\<lparr>transform :=
                        \<lparr>scale = initialScale,
                         offsetX = rd (rd (rwidth container - rd (of_nat (naturalWidth img) * initialScale)) / 2),
                         offsetY = rd (rd (rheight container - rd (of_nat (naturalHeight img) * initialScale)) / 2)\<rparr>\<rparr>))"

text \<open>
  The \<open>onload\<close> handler of the image that the load effect creates. The image element
  behind \<open>imageRef\<close> is given the source of the image that has just been loaded, and
  shows it from then on.
\<close>

definition imageOnload :: "rounding \<Rightarrow> editor \<Rightarrow> image_el \<Rightarrow> error + editor" where
  "imageOnload rd e im =
     (let e1 = (case imageRef e of None \<Rightarrow> e | Some _ \<Rightarrow> e\<lparr>imageRef := Some im\<rparr>)
      in (case canvasRef e1 of
            None \<Rightarrow> Inr (resetView rd e1)
          | Some canvas \<Rightarrow>
              let canvas' = resize_canvas (naturalWidth im) (naturalHeight im) canvas;
                  e2 = e1\<lparr>canvasRef := Some canvas'\<rparr>
              in (case getContext canvas' of
                    None \<Rightarrow> Inr (resetView rd e2)
                  | Some ctx \<Rightarrow>
                      (case getImageData ctx of
                         Inl err \<Rightarrow> Inl err
                       | Inr initialImageData \<Rightarrow>
                           Inr (resetView rd (updateHistoryControls
                             (e2\<lparr>historyRef := \<lparr>stack = [initialImageData], index = 0\<rparr>\<rparr>)))))))"

definition getTransformedPoint :: "rounding \<Rightarrow> editor \<Rightarrow> rat \<Rightarrow> rat \<Rightarrow> (rat \<times> rat) option" where
  "getTransformedPoint rd e cx cy =
     (case containerRef e of
        None \<Rightarrow> None
      | Some rect \<Rightarrow>
          Some (rd (rd (rd (cx - rleft rect) - offsetX (transform e)) / scale (transform e)),
                rd (rd (rd (cy - rtop rect) - offsetY (transform e)) / scale (transform e))))"

definition handleWheel :: "rounding \<Rightarrow> editor \<Rightarrow> wheel_event \<Rightarrow> error + editor" where
  "handleWheel rd e ev =
     (let zoomFactor = rd (11 / 10);
          newScale = (if deltaY ev < 0 then rd (scale (transform e) * zoomFactor)
                      else rd (scale (transform e) / zoomFactor))
      in if newScale < MIN_SCALE rd \<or> newScale > MAX_SCALE then Inr e
         else
           (case containerRef e of
              None \<Rightarrow> Inl TypeError
            | Some rect \<Rightarrow>
                let mouseX = rd (wheelX ev - rleft rect);
                    mouseY = rd (wheelY ev - rtop rect);
                    newOffsetX = rd (mouseX - rd (rd (mouseX - offsetX (transform e))
                                                   * rd (newScale / scale (transform e))));
                    newOffsetY = rd (mouseY - rd (rd (mouseY - offsetY (transform e))
                                                   * rd (newScale / scale (transform e))))
                in Inr (e\<lparr>transform := \<lparr>scale = newScale, offsetX = newOffsetX, offsetY = newOffsetY\<rparr>\<rparr>)))"

subsection \<open>The brush\<close>

text \<open>
  The stroke that \<open>drawLine\<close> sets up: the join, the cap and the width of the line, and
  the path from \<open>moveTo(x1, y1)\<close> to \<open>lineTo(x2, y2)\<close>.
\<close>

definition brush_path :: "rounding \<Rightarrow> editor \<Rightarrow> rat \<Rightarrow> rat \<Rightarrow> rat \<Rightarrow> rat \<Rightarrow> stroke_path" where
  "brush_path rd e x1 y1 x2 y2 =
     \<lparr>lineJoin = (if brushShape e = Circle then ''round'' else ''square''),
      lineCap = (if brushShape e = Circle then ''round'' else ''square''),
      lineWidth = rd (brushSize e / scale (transform e)),
      fromX = x1, fromY = y1, toX = x2, toY = y2\<rparr>"

definition drawLine :: "rounding \<Rightarrow> rasteriser \<Rightarrow> editor \<Rightarrow> rat \<Rightarrow> rat \<Rightarrow> rat \<Rightarrow> rat \<Rightarrow> editor" where
  "drawLine rd rast e x1 y1 x2 y2 =
     (case canvasRef e of
        None \<Rightarrow> e
      | Some c \<Rightarrow>
          (case getContext c of
             None \<Rightarrow> e
           | Some context \<Rightarrow>
               let path = brush_path rd e x1 y1 x2 y2;
                   globalCompositeOperation = (if isErasing e then DestinationOut else SourceOver);
                   strokeStyle = (if isErasing e
                                  then \<lparr>styleR = 0, styleG = 0, styleB = 0, styleA = 1\<rparr>
                                  else \<lparr>styleR = 236, styleG = 72, styleB = 153, styleA = brushOpacity e\<rparr>)
               in e\<lparr>canvasRef := Some (stroke rast path globalCompositeOperation strokeStyle context)\<rparr>))"

subsection \<open>Pointer and keyboard handlers\<close>

definition handlePointerDown :: "rounding \<Rightarrow> rasteriser \<Rightarrow> editor \<Rightarrow> pointer_event \<Rightarrow> editor" where
  "handlePointerDown rd rast e ev =
     (if button ev \<noteq> 0 then e
      else if isPanningRef e then e\<lparr>lastPointRef := Some (clientX ev, clientY ev)\<rparr>
      else
        let e1 = e\<lparr>isDrawingRef := True\<rparr>
        in (case getTransformedPoint rd e1 (clientX ev) (clientY ev) of
              None \<Rightarrow> e1
            | Some point \<Rightarrow>
                drawLine rd rast (e1\<lparr>lastPointRef := Some point\<rparr>)
                  (fst point) (snd point) (fst point) (snd point)))"

text \<open>
  The first test of \<open>handlePointerMove\<close>, \<open>isPanningRef.current && lastPointRef.current\<close>,
  is the case distinction on the last point under the panning flag; the drawing branch is
  taken when that test fails.
\<close>

definition handlePointerMove :: "rounding \<Rightarrow> rasteriser \<Rightarrow> editor \<Rightarrow> pointer_event \<Rightarrow> editor" where
  "handlePointerMove rd rast e ev =
     (case (if isPanningRef e then lastPointRef e else None) of
        Some lastPoint \<Rightarrow>
          let dx = rd (clientX ev - fst lastPoint);
              dy = rd (clientY ev - snd lastPoint)
          in e\<lparr>transform := (transform e)\<lparr>offsetX := rd (offsetX (transform e) + dx),
                                          offsetY := rd (offsetY (transform e) + dy)\<rparr>,
               lastPointRef := Some (clientX ev, clientY ev)\<rparr>
      | None \<Rightarrow>
          if isDrawingRef e then
            (case getTransformedPoint rd e (clientX ev) (clientY ev) of
               None \<Rightarrow> e
             | Some currentPoint \<Rightarrow>
                 (case lastPointRef e of
                    None \<Rightarrow> e
                  | Some lastPoint \<Rightarrow>
                      (drawLine rd rast e (fst lastPoint) (snd lastPoint)
                         (fst currentPoint) (snd currentPoint))
                      \<lparr>lastPointRef := Some currentPoint\<rparr>))
          else e)"

text \<open>Also the handler of the pointer leaving the container.\<close>

definition handlePointerUp :: "editor \<Rightarrow> error + editor" where
  "handlePointerUp e =
     (case (if isDrawingRef e then saveHistory e else Inr e) of
        Inl err \<Rightarrow> Inl err
      | Inr e' \<Rightarrow> Inr (e'\<lparr>isDrawingRef := False, lastPointRef := None\<rparr>))"

definition set_cursor :: "string \<Rightarrow> editor \<Rightarrow> editor" where
  "set_cursor s e =
     (case containerRef e of
        None \<Rightarrow> e
      | Some container \<Rightarrow> e\<lparr>containerRef := Some (container\<lparr>cursor := s\<rparr>)\<rparr>)"

definition handleKeyDown :: "editor \<Rightarrow> keyboard_event \<Rightarrow> error + editor" where
  "handleKeyDown e ev =
     (if key ev = '' '' \<and> \<not> isPanningRef e then
        Inr (set_cursor ''grab'' (e\<lparr>isPanningRef := True\<rparr>))
      else if (ctrlKey ev \<or> metaKey ev) \<and> key ev = ''z'' then handleUndo e
      else if (ctrlKey ev \<or> metaKey ev) \<and> key ev = ''y'' then handleRedo e
      else Inr e)"

definition handleKeyUp :: "editor \<Rightarrow> keyboard_event \<Rightarrow> editor" where
  "handleKeyUp e ev =
     (if key ev = '' '' then
        set_cursor ''crosshair'' (e\<lparr>isPanningRef := False, lastPointRef := None\<rparr>)
      else e)"

definition handleClear :: "editor \<Rightarrow> error + editor" where
  "handleClear e =
     (case canvasRef e of
        None \<Rightarrow> Inr e
      | Some canvas \<Rightarrow>
          (case getContext canvas of
             None \<Rightarrow> Inr e
           | Some context \<Rightarrow> saveHistory (e\<lparr>canvasRef := Some (clearRect context)\<rparr>)))"

text \<open>
  \<open>toDataURL('image/png')\<close>: PNG is lossless, so the export is the bitmap itself with
  its pixel dimensions. \<open>handleSave\<close> returns what it passes to \<open>onSave\<close>, and \<open>None\<close>
  when it does not call \<open>onSave\<close>.
\<close>

definition toDataURL :: "canvas_el \<Rightarrow> ImageData" where
  "toDataURL c = \<lparr>iwidth = cwidth c, iheight = cheight c, idata = cdata c\<rparr>"

definition handleSave :: "editor \<Rightarrow> ImageData option" where
  "handleSave e =
     (case canvasRef e of
        None \<Rightarrow> None
      | Some canvas \<Rightarrow> Some (toDataURL canvas))"

text \<open>
  The component as it is mounted, before any image has been loaded: the initial values of
  its refs and of its state. The canvas and the container are the elements that the first
  render creates.
\<close>

definition mounted :: "canvas_el \<Rightarrow> container_el \<Rightarrow> editor" where
  "mounted canvas container =
     \<lparr>canvasRef = Some canvas,
      imageRef = Some \<lparr>naturalWidth = 0, naturalHeight = 0\<rparr>,
      containerRef = Some container,
      isDrawingRef = False,
      isPanningRef = False,
      lastPointRef = None,
      historyRef = \<lparr>stack = [], index = - 1\<rparr>,
      brushSize = 40,
      isErasing = False,
      transform = \<lparr>scale = 1, offsetX = 0, offsetY = 0\<rparr>,
      brushShape = Circle,
      brushOpacity = 1 / 2,
      historyControls = \<lparr>canUndo = False, canRedo = False\<rparr>\<rparr>"

text \<open>The zoom buttons turn the wheel at the centre of the container.\<close>

datatype direction = ZoomIn | ZoomOut

definition handleZoom :: "rounding \<Rightarrow> editor \<Rightarrow> direction \<Rightarrow> error + editor" where
  "handleZoom rd e dir =
     (case containerRef e of
        None \<Rightarrow> Inr e
      | Some rect \<Rightarrow>
          handleWheel rd e \<lparr>wheelX = rd (rwidth rect / 2), wheelY = rd (rheight rect / 2),
                         deltaY = (if dir = ZoomIn then - 100 else 100)\<rparr>)"

subsection \<open>Sessions\<close>

text \<open>Running one handler after another: an exception ends the run.\<close>

definition and_then :: "error + 'a \<Rightarrow> ('a \<Rightarrow> error + 'b) \<Rightarrow> error + 'b" where
  "and_then r f = (case r of Inl err \<Rightarrow> Inl err | Inr x \<Rightarrow> f x)"

text \<open>
  The events that the component listens to, each with the handler that the component
  registers for it: the pointer and wheel listeners of the container, the key listeners
  of the window, and the buttons of the toolbar.
\<close>

datatype event =
    PointerDown pointer_event
  | PointerMove pointer_event
  | PointerUp
  | PointerLeave
  | Wheel wheel_event
  | KeyDown keyboard_event
  | KeyUp keyboard_event
  | ClickUndo
  | ClickRedo
  | ClickClear
  | ClickZoom direction
  | ClickResetView
  | ImageLoad image_el
  | WindowResize
  | SetBrushSize rat
  | SetIsErasing bool
  | SetBrushShape brush_shape
  | SetBrushOpacity rat

fun step :: "rounding \<Rightarrow> rasteriser \<Rightarrow> editor \<Rightarrow> event \<Rightarrow> error + editor" where
  "step rd rast e (PointerDown ev) = Inr (handlePointerDown rd rast e ev)"
| "step rd rast e (PointerMove ev) = Inr (handlePointerMove rd rast e ev)"
| "step rd rast e PointerUp = handlePointerUp e"
| "step rd rast e PointerLeave = handlePointerUp e"
| "step rd rast e (Wheel ev) = handleWheel rd e ev"
| "step rd rast e (KeyDown ev) = handleKeyDown e ev"
| "step rd rast e (KeyUp ev) = Inr (handleKeyUp e ev)"
| "step rd rast e ClickUndo = handleUndo e"
| "step rd rast e ClickRedo = handleRedo e"
| "step rd rast e ClickClear = handleClear e"
| "step rd rast e (ClickZoom dir) = handleZoom rd e dir"
| "step rd rast e ClickResetView = Inr (resetView rd e)"
| "step rd rast e (ImageLoad im) = imageOnload rd e im"
| "step rd rast e WindowResize = Inr (resetView rd e)"
| "step rd rast e (SetBrushSize v) = Inr (e\<lparr>brushSize := v\<rparr>)"
| "step rd rast e (SetIsErasing v) = Inr (e\<lparr>isErasing := v\<rparr>)"
| "step rd rast e (SetBrushShape v) = Inr (e\<lparr>brushShape := v\<rparr>)"
| "step rd rast e (SetBrushOpacity v) = Inr (e\<lparr>brushOpacity := v\<rparr>)"

fun run :: "rounding \<Rightarrow> rasteriser \<Rightarrow> editor \<Rightarrow> event list \<Rightarrow> error + editor" where
  "run rd rast e [] = Inr e"
| "run rd rast e (ev # evs) = and_then (step rd rast e ev) (\<lambda>e'. run rd rast e' evs)"

text \<open>
  A committed gesture: a stroke, from the press of the primary button over the moves to
  the release, or a click on Clear.
\<close>

datatype gesture = Stroke rat rat "(rat \<times> rat) list" | ClearMask

fun is_load :: "event \<Rightarrow> bool" where
  "is_load (ImageLoad im) = True"
| "is_load ev = False"

definition pointer_at :: "rat \<times> rat \<Rightarrow> pointer_event" where
  "pointer_at p = \<lparr>button = 0, clientX = fst p, clientY = snd p\<rparr>"

fun gesture_events :: "gesture \<Rightarrow> event list" where
  "gesture_events (Stroke x y moves) =
     PointerDown (pointer_at (x, y)) # map (\<lambda>p. PointerMove (pointer_at p)) moves @ [PointerUp]"
| "gesture_events ClearMask = [ClickClear]"

subsection \<open>Well-formed bitmaps\<close>

text \<open>
  A canvas of the given size with a 2D context, whose bitmap has one pixel for each
  position; a snapshot of that size; and an editor whose canvas and snapshots all have
  that size and whose history cursor points into the stack.
\<close>

definition canvas_ok :: "nat \<Rightarrow> nat \<Rightarrow> canvas_el \<Rightarrow> bool" where
  "canvas_ok w h c = (has2d c \<and> cwidth c = w \<and> cheight c = h \<and> length (cdata c) = w * h)"

definition snapshot_ok :: "nat \<Rightarrow> nat \<Rightarrow> ImageData \<Rightarrow> bool" where
  "snapshot_ok w h img = (iwidth img = w \<and> iheight img = h \<and> length (idata img) = w * h)"

definition session_ok :: "nat \<Rightarrow> nat \<Rightarrow> editor \<Rightarrow> bool" where
  "session_ok w h e =
     (0 < w \<and> 0 < h \<and>
      (case canvasRef e of None \<Rightarrow> False | Some c \<Rightarrow> canvas_ok w h c) \<and>
      list_all (snapshot_ok w h) (stack (historyRef e)) \<and>
      0 \<le> index (historyRef e) \<and>
      index (historyRef e) < int (length (stack (historyRef e))))"

text \<open>The history controls shown to the host are those of the history as it is.\<close>

definition controls_current :: "editor \<Rightarrow> bool" where
  "controls_current e =
     (historyControls e =
        \<lparr>canUndo = 0 < index (historyRef e),
         canRedo = index (historyRef e) < int (length (stack (historyRef e))) - 1\<rparr>)"

text \<open>The live bitmap is the snapshot under the history cursor.\<close>

definition at_cursor :: "editor \<Rightarrow> bool" where
  "at_cursor e =
     (case canvasRef e of
        None \<Rightarrow> False
      | Some c \<Rightarrow> js_index (stack (historyRef e)) (index (historyRef e)) = Some (toDataURL c))"

subsection \<open>The wheel\<close>

text \<open>The scale that \<open>handleWheel\<close> computes for a turn of the wheel, from the scale \<open>s\<close>.\<close>

definition wheel_scale :: "rounding \<Rightarrow> rat \<Rightarrow> wheel_event \<Rightarrow> rat" where
  "wheel_scale rd s ev = (if deltaY ev < 0 then rd (s * rd (11 / 10)) else rd (s / rd (11 / 10)))"

text \<open>The pointer moves of a gesture, one after the other.\<close>

definition moves :: "rounding \<Rightarrow> rasteriser \<Rightarrow> editor \<Rightarrow> pointer_event list \<Rightarrow> editor" where
  "moves rd rast e mvs = foldl (handlePointerMove rd rast) e mvs"

subsection \<open>The specification's zoom\<close>

text \<open>The new scale as the specification words it: the scaled value, clamped to the bounds.\<close>

definition spec_clamp :: "rat \<Rightarrow> rat \<Rightarrow> rat \<Rightarrow> rat" where
  "spec_clamp x lo hi = max lo (min x hi)"

subsection \<open>Concrete editors\<close>

definition blank_canvas :: "nat \<Rightarrow> nat \<Rightarrow> canvas_el" where
  "blank_canvas w h = \<lparr>cwidth = w, cheight = h, cdata = replicate (w * h) transparent, has2d = True\<rparr>"

definition box :: "rat \<Rightarrow> rat \<Rightarrow> container_el" where
  "box w h = \<lparr>rleft = 0, rtop = 0, rwidth = w, rheight = h, cursor = ''crosshair''\<rparr>"

definition wheel_at :: "rat \<Rightarrow> rat \<Rightarrow> rat \<Rightarrow> wheel_event" where
  "wheel_at x y d = \<lparr>wheelX = x, wheelY = y, deltaY = d\<rparr>"

text \<open>
  What loading an image of 100 by 1 into a container of 21 by 21 leaves on the platform: the
  view is fitted at the scale 0.21, as a double.
\<close>

definition fitted_editor :: editor where
  "fitted_editor = (mounted (blank_canvas 100 1) (box 21 21))
     \<lparr>imageRef := Some \<lparr>naturalWidth = 100, naturalHeight = 1\<rparr>,
      historyRef := \<lparr>stack = [toDataURL (blank_canvas 100 1)], index = 0\<rparr>,
      transform :=
        \<lparr>scale = round_double (21 / 100), offsetX = 0,
         offsetY = round_double (round_double (21 - round_double (21 / 100)) / 2)\<rparr>\<rparr>"

text \<open>The same, at the scale 0.22 of a container of 22 by 22.\<close>

definition fitted22_editor :: editor where
  "fitted22_editor = (mounted (blank_canvas 100 1) (box 22 22))
     \<lparr>imageRef := Some \<lparr>naturalWidth = 100, naturalHeight = 1\<rparr>,
      historyRef := \<lparr>stack = [toDataURL (blank_canvas 100 1)], index = 0\<rparr>,
      transform :=
        \<lparr>scale = round_double (22 / 100), offsetX = 0,
         offsetY = round_double (round_double (22 - round_double (22 / 100)) / 2)\<rparr>\<rparr>"

text \<open>A mounted editor with a canvas of 2 by 2 in a container of 400 by 400.\<close>

definition small_editor :: editor where
  "small_editor = mounted (blank_canvas 2 2) (box 400 400)"

text \<open>
  What loading an image of one pixel into \<open>small_editor\<close> leaves, and a rasteriser that
  covers every pixel fully.
\<close>

definition one_pixel :: image_el where
  "one_pixel = \<lparr>naturalWidth = 1, naturalHeight = 1\<rparr>"

definition loaded_editor :: editor where
  "loaded_editor = small_editor
     \<lparr>canvasRef := Some (blank_canvas 1 1),
      imageRef := Some one_pixel,
      historyRef := \<lparr>stack = [toDataURL (blank_canvas 1 1)], index = 0\<rparr>,
      transform := \<lparr>scale = 1, offsetX = 399 / 2, offsetY = 399 / 2\<rparr>\<rparr>"

definition full_cover :: rasteriser where
  "full_cover path x y = 1"

text \<open>
  An editor in the middle of a stroke: \<open>small_editor\<close> after loading the image of one
  pixel, a first tap at (200, 200), committed, and a second press at the same point. The
  pixel has been painted once in the second snapshot and twice on the canvas.
\<close>

definition pink_once :: pixel where
  "pink_once = \<lparr>red = 118 / 255, green = 12 / 85, blue = 3 / 10, alpha = 1 / 2\<rparr>"

definition pink_twice :: pixel where
  "pink_twice = \<lparr>red = 59 / 85, green = 18 / 85, blue = 9 / 20, alpha = 3 / 4\<rparr>"

definition drawing_editor :: editor where
  "drawing_editor =
     \<lparr>canvasRef = Some \<lparr>cwidth = 1, cheight = 1, cdata = [pink_twice], has2d = True\<rparr>,
      imageRef = Some \<lparr>naturalWidth = 1, naturalHeight = 1\<rparr>,
      containerRef = Some \<lparr>rleft = 0, rtop = 0, rwidth = 400, rheight = 400, cursor = ''crosshair''\<rparr>,
      isDrawingRef = True,
      isPanningRef = False,
      lastPointRef = Some (1 / 2, 1 / 2),
      historyRef =
        \<lparr>stack = [\<lparr>iwidth = 1, iheight = 1, idata = [transparent]\<rparr>,
                  \<lparr>iwidth = 1, iheight = 1, idata = [pink_once]\<rparr>],
         index = 1\<rparr>,
      brushSize = 40,
      isErasing = False,
      transform = \<lparr>scale = 1, offsetX = 399 / 2, offsetY = 399 / 2\<rparr>,
      brushShape = Circle,
      brushOpacity = 1 / 2,
      historyControls = \<lparr>canUndo = True, canRedo = False\<rparr>\<rparr>"

definition undone_editor :: editor where
  "undone_editor = drawing_editor
     \<lparr>canvasRef := Some \<lparr>cwidth = 1, cheight = 1, cdata = [transparent], has2d = True\<rparr>,
      historyRef := (historyRef drawing_editor)\<lparr>index := 0\<rparr>,
      historyControls := \<lparr>canUndo = False, canRedo = True\<rparr>\<rparr>"

definition ctrl_z :: keyboard_event where
  "ctrl_z = \<lparr>key = ''z'', ctrlKey = True, metaKey = False\<rparr>"

definition ctrl_y :: keyboard_event where
  "ctrl_y = \<lparr>key = ''y'', ctrlKey = True, metaKey = False\<rparr>"

definition space_key :: keyboard_event where
  "space_key = \<lparr>key = '' '', ctrlKey = False, metaKey = False\<rparr>"

text \<open>
  The component before any image has been loaded: a canvas element without width and
  height attributes is 300 by 150.
\<close>

definition unloaded_editor :: editor where
  "unloaded_editor = mounted (blank_canvas 300 150) (box 400 400)"

text \<open>
  \<open>drawing_editor\<close> after its stroke has been committed and the brush switched to the
  eraser: the pixel on the canvas has been painted twice.
\<close>

definition erasing_editor :: editor where
  "erasing_editor = drawing_editor
     \<lparr>isDrawingRef := False, lastPointRef := None, isErasing := True,
      historyRef :=
        \<lparr>stack = [\<lparr>iwidth = 1, iheight = 1, idata = [transparent]\<rparr>,
                  \<lparr>iwidth = 1, iheight = 1, idata = [pink_once]\<rparr>,
                  \<lparr>iwidth = 1, iheight = 1, idata = [pink_twice]\<rparr>],
         index = 2\<rparr>\<rparr>"

section \<open>Rounding\<close>

lemma pow2_pos: "0 < pow2 k"
  by (simp add: pow2_def)

lemma pow2_Suc: "pow2 (k + 1) = 2 * pow2 k"
proof (cases "0 \<le> k")
  case True
  then show ?thesis by (simp add: pow2_def nat_add_distrib)
next
  case False
  then have "nat (- k) = Suc (nat (- (k + 1)))" by simp
  with False show ?thesis by (auto simp add: pow2_def)
qed

lemma pow2_pred: "pow2 (k - 1) = pow2 k / 2"
  using pow2_Suc [of "k - 1"] by simp

lemma expo_bounds: "0 < x \<Longrightarrow> pow2 (expo x) \<le> x \<and> x < 2 * pow2 (expo x)"
proof (induction x rule: expo.induct)
  case (1 x)
  show ?case
  proof (cases "2 \<le> x")
    case True
    with 1 have "pow2 (expo (x / 2)) \<le> x / 2 \<and> x / 2 < 2 * pow2 (expo (x / 2))" by simp
    moreover have "expo x = expo (x / 2) + 1" using True by (subst expo.simps) simp
    ultimately show ?thesis by (simp add: pow2_Suc)
  next
    case False
    show ?thesis
    proof (cases "x < 1")
      case True
      with 1 False have "pow2 (expo (x * 2)) \<le> x * 2 \<and> x * 2 < 2 * pow2 (expo (x * 2))" by simp
      moreover have "expo x = expo (x * 2) - 1" using True False 1 by (subst expo.simps) simp
      ultimately show ?thesis by (simp add: pow2_pred)
    next
      case above: False
      have "expo x = 0" using False above by (subst expo.simps) simp
      with False above show ?thesis by (simp add: pow2_def)
    qed
  qed
qed

lemma round_even_error: "\<bar>of_int (round_even x) - x\<bar> \<le> 1 / 2"
proof -
  have "of_int \<lfloor>x\<rfloor> \<le> x" "x < of_int \<lfloor>x\<rfloor> + 1" by linarith+
  then show ?thesis by (auto simp add: round_even_def Let_def)
qed

lemma round_pos_error:
  assumes "0 < x"
  shows "\<bar>round_pos x - x\<bar> \<le> x / 2 ^ 53"
proof -
  let ?ulp = "pow2 (expo x) / 2 ^ 52"
  have up: "0 < ?ulp" by (simp add: pow2_pos)
  have "?ulp * (x / ?ulp) = x"
    using up by simp
  then have eq: "round_pos x - x = ?ulp * (of_int (round_even (x / ?ulp)) - x / ?ulp)"
    by (simp only: round_pos_def Let_def right_diff_distrib)
  have "\<bar>round_pos x - x\<bar> = ?ulp * \<bar>of_int (round_even (x / ?ulp)) - x / ?ulp\<bar>"
    by (simp only: eq abs_mult abs_of_pos [OF up])
  also have "\<dots> \<le> ?ulp * (1 / 2)"
    using up round_even_error [of "x / ?ulp"] by (intro mult_left_mono) simp_all
  also have "\<dots> = pow2 (expo x) / 2 ^ 53" by simp
  also have "\<dots> \<le> x / 2 ^ 53"
    using expo_bounds [OF assms] by (simp add: divide_right_mono)
  finally show ?thesis .
qed

lemma round_double_error: "\<bar>round_double x - x\<bar> \<le> \<bar>x\<bar> / 2 ^ 53"
proof -
  consider "x = 0" | "0 < x" | "x < 0" by linarith
  then show ?thesis
  proof cases
    case 1
    then show ?thesis by (simp add: round_double_def)
  next
    case 2
    with round_pos_error [of x] show ?thesis by (simp add: round_double_def)
  next
    case 3
    with round_pos_error [of "- x"] show ?thesis by (simp add: round_double_def)
  qed
qed

lemma round_double_accurate: "accurate (1 / 2 ^ 53) round_double"
  using round_double_error by (simp add: accurate_def)

lemma identity_accurate: "accurate 0 (\<lambda>x. x)"
  by (simp add: accurate_def)

subsection \<open>Error bounds of the zoom arithmetic\<close>

lemma accurateD: "accurate u rd \<Longrightarrow> \<bar>rd x - x\<bar> \<le> u * \<bar>x\<bar>"
  by (simp add: accurate_def)

lemma rd_step:
  assumes "accurate u rd" and "0 \<le> u" and "\<bar>x\<bar> \<le> c * W"
  shows "\<bar>rd x - x\<bar> \<le> c * (u * W)"
proof -
  have "\<bar>rd x - x\<bar> \<le> u * \<bar>x\<bar>" using assms(1) by (rule accurateD)
  also have "\<dots> \<le> u * (c * W)" using assms(2,3) by (rule mult_left_mono [rotated])
  finally show ?thesis by (simp add: mult_ac)
qed

lemma prod_error:
  fixes a r T R :: rat
  assumes "\<bar>a - T\<bar> \<le> da" and "\<bar>r - R\<bar> \<le> dr" and "\<bar>r\<bar> \<le> cr" and "\<bar>T\<bar> \<le> cT"
  shows "\<bar>a * r - T * R\<bar> \<le> da * cr + cT * dr"
proof -
  have da: "0 \<le> da" and dr: "0 \<le> dr" and cr: "0 \<le> cr" and cT: "0 \<le> cT"
    using assms by linarith+
  have "a * r - T * R = (a - T) * r + T * (r - R)" by (simp add: algebra_simps)
  then have "\<bar>a * r - T * R\<bar> \<le> \<bar>a - T\<bar> * \<bar>r\<bar> + \<bar>T\<bar> * \<bar>r - R\<bar>"
    by (metis abs_mult abs_triangle_ineq)
  also have "\<dots> \<le> da * cr + cT * dr"
    using assms da dr cr cT by (intro add_mono mult_mono) simp_all
  finally show ?thesis .
qed

lemma zoom_offset_error:
  fixes m o' T R W u d :: rat
  assumes acc: "accurate u rd" and u: "0 \<le> u" "u \<le> 1 / 1000"
    and W: "\<bar>m\<bar> \<le> W" and T: "\<bar>T\<bar> \<le> 2 * W"
    and d: "d \<le> 40 * (u * W)" and inp: "\<bar>(m - o') - T\<bar> \<le> d"
    and R: "0 \<le> R" "R \<le> 3"
  shows "\<bar>(m - rd (m - rd (rd (m - o') * rd R))) - T * R\<bar> \<le> 4 * d + 34 * (u * W)"
proof -
  define E where "E = u * W"
  have W0: "0 \<le> W" using W by linarith
  have E0: "0 \<le> E" using u W0 by (simp add: E_def)
  have "u * W \<le> (1 / 1000) * W" using u W0 by (intro mult_right_mono) simp_all
  then have EW: "1000 * E \<le> W" by (simp add: E_def)
  have dE: "d \<le> 40 * E" using d by (simp add: E_def)
  define a where "a = rd (m - o')"
  define r where "r = rd R"
  define p where "p = a * r"
  define b where "b = rd p"
  define o2 where "o2 = rd (m - b)"
  have "\<bar>m - o'\<bar> \<le> 3 * W" using inp T dE EW by linarith
  from rd_step [OF acc u(1) this] have a1: "\<bar>a - (m - o')\<bar> \<le> 3 * E"
    by (simp add: a_def E_def)
  have aT: "\<bar>a - T\<bar> \<le> d + 3 * E" using a1 inp by linarith
  have "\<bar>R\<bar> \<le> 3 * 1" using R by simp
  from rd_step [OF acc u(1) this] have r1: "\<bar>r - R\<bar> \<le> 3 * u"
    by (simp add: r_def)
  have rb: "\<bar>r\<bar> \<le> 4" using r1 R u by linarith
  define X where "X = T * R"
  from prod_error [OF aT r1 rb T]
  have "\<bar>p - X\<bar> \<le> (d + 3 * E) * 4 + 2 * W * (3 * u)" by (simp add: p_def X_def)
  also have "2 * W * (3 * u) = 6 * E" by (simp add: E_def)
  finally have pT: "\<bar>p - X\<bar> \<le> 4 * d + 18 * E" by simp
  have "\<bar>T * R\<bar> \<le> (2 * W) * 3"
    unfolding abs_mult using T R W0 by (intro mult_mono) simp_all
  then have TR: "\<bar>X\<bar> \<le> 6 * W" by (simp add: X_def)
  have "\<bar>p\<bar> \<le> 7 * W" using pT TR dE EW E0 by linarith
  from rd_step [OF acc u(1) this] have b1: "\<bar>b - p\<bar> \<le> 7 * E"
    by (simp add: b_def E_def)
  have bT: "\<bar>b - X\<bar> \<le> 4 * d + 25 * E" using b1 pT by linarith
  have "\<bar>m - b\<bar> \<le> 9 * W" using bT TR W dE EW E0 by linarith
  from rd_step [OF acc u(1) this] have o1: "\<bar>o2 - (m - b)\<bar> \<le> 9 * E"
    by (simp add: o2_def E_def)
  have "\<bar>(m - o2) - X\<bar> \<le> 4 * d + 34 * E"
    using o1 bT by linarith
  then show ?thesis
    by (simp add: o2_def b_def p_def a_def r_def E_def X_def)
qed


lemma accurate_pos:
  assumes "accurate u rd" and "0 \<le> u" and "u \<le> 1 / 1000" and "0 < x"
  shows "0 < rd x" and "\<bar>rd x - x\<bar> \<le> x / 1000" and "\<bar>rd x - x\<bar> \<le> u * x"
proof -
  have e: "\<bar>rd x - x\<bar> \<le> u * x" using accurateD [OF assms(1), of x] assms(4) by simp
  have "u * x \<le> (1 / 1000) * x" using assms(3,4) by (intro mult_right_mono) simp_all
  with e show "\<bar>rd x - x\<bar> \<le> x / 1000" by simp
  with assms(4) show "0 < rd x" by linarith
  show "\<bar>rd x - x\<bar> \<le> u * x" by (rule e)
qed

lemma accurate_pos_rev:
  assumes "accurate u rd" and "0 \<le> u" and "u \<le> 1 / 1000" and "0 < rd x"
  shows "0 < x"
proof (rule ccontr)
  assume "\<not> 0 < x"
  then have x: "x \<le> 0" by simp
  have e: "\<bar>rd x - x\<bar> \<le> u * (- x)" using accurateD [OF assms(1), of x] x by simp
  have "u * (- x) \<le> (1 / 1000) * (- x)" using assms(3) x by (intro mult_right_mono) simp_all
  with e x assms(4) show False by linarith
qed

lemma zoom_factor_bounds:
  assumes "accurate u rd" and "0 \<le> u" and "u \<le> 1 / 1000"
  shows "1 < rd (11 / 10)" and "rd (11 / 10) < 6 / 5"
  using accurate_pos(2) [OF assms, of "11 / 10"] by linarith+

text \<open>The scale after one turn of the wheel, and after the turn back.\<close>

lemma zoom_scale_error:
  fixes s z :: rat
  assumes acc: "accurate u rd" and u: "0 \<le> u" "u \<le> 1 / 1000"
    and z: "1 < z" "z < 6 / 5" and s: "0 < s"
    and s1: "s1 = rd (s * z) \<and> s2 = rd (s1 / z) \<or> s1 = rd (s / z) \<and> s2 = rd (s1 * z)"
  shows "0 < s1" and "s1 \<le> 2 * s" and "0 < s2" and "s2 \<le> 3 * s1" and "\<bar>s2 - s\<bar> \<le> 3 * (u * s)"
proof -
  define q1 where "q1 = (if s1 = rd (s * z) \<and> s2 = rd (s1 / z) then s * z else s / z)"
  define q2 where "q2 = (if s1 = rd (s * z) \<and> s2 = rd (s1 / z) then s1 / z else s1 * z)"
  have r1: "s1 = rd q1" and r2: "s2 = rd q2"
    using s1 by (auto simp add: q1_def q2_def)
  have us: "0 \<le> u * s" "1000 * (u * s) \<le> s"
    using u s by (simp_all add: mult_right_mono [of u "1 / 1000" s, simplified])
  have q1b: "5 / 6 * s \<le> q1 \<and> q1 \<le> 6 / 5 * s"
  proof (cases "s1 = rd (s * z) \<and> s2 = rd (s1 / z)")
    case True
    have q: "q1 = s * z" unfolding q1_def by (rule if_P [OF True])
    have "s * 1 \<le> s * z" using z s by (intro mult_left_mono) simp_all
    moreover have "s * z \<le> s * (6 / 5)" using z s by (intro mult_left_mono) simp_all
    ultimately show ?thesis unfolding q by simp
  next
    case False
    have q: "q1 = s / z" unfolding q1_def by (rule if_not_P [OF False])
    have "s / z \<le> s / 1" using z s by (intro divide_left_mono) simp_all
    moreover have "s / (6 / 5) \<le> s / z" using z s by (intro divide_left_mono) simp_all
    ultimately show ?thesis unfolding q by simp
  qed
  then have q1p: "0 < q1" using s by linarith
  from accurate_pos [OF acc u q1p] have s1p: "0 < s1" and e1: "\<bar>s1 - q1\<bar> \<le> q1 / 1000"
    and e1u: "\<bar>s1 - q1\<bar> \<le> u * q1"
    by (simp_all add: r1)
  show "0 < s1" by (rule s1p)
  show "s1 \<le> 2 * s" using e1 q1b by linarith
  have s1l: "4 / 5 * s \<le> s1" using e1 q1b by linarith
  have q2s: "\<bar>q2 - s\<bar> \<le> u * s"
  proof (cases "s1 = rd (s * z) \<and> s2 = rd (s1 / z)")
    case True
    have q: "q1 = s * z" unfolding q1_def by (rule if_P [OF True])
    have q': "q2 = s1 / z" unfolding q2_def by (rule if_P [OF True])
    have "q2 - s = (s1 - q1) / z" unfolding q q' using z by (simp add: field_simps)
    then have "\<bar>q2 - s\<bar> = \<bar>s1 - q1\<bar> / z" using z by simp
    also have "\<dots> \<le> (u * q1) / z" using e1u z by (intro divide_right_mono) simp_all
    also have "\<dots> = u * s" unfolding q using z by simp
    finally show ?thesis .
  next
    case False
    have q: "q1 = s / z" unfolding q1_def by (rule if_not_P [OF False])
    have q': "q2 = s1 * z" unfolding q2_def by (rule if_not_P [OF False])
    have "q2 - s = (s1 - q1) * z" unfolding q q' using z by (simp add: field_simps)
    then have "\<bar>q2 - s\<bar> = \<bar>s1 - q1\<bar> * z" using z by (simp add: abs_mult)
    also have "\<dots> \<le> (u * q1) * z" using e1u z by (intro mult_right_mono) simp_all
    also have "\<dots> = u * s" unfolding q using z by simp
    finally show ?thesis .
  qed
  then have q2p: "0 < q2" and q2u: "q2 \<le> 2 * s" using us s by linarith+
  from accurate_pos [OF acc u q2p] have s2p: "0 < s2" and e2: "\<bar>s2 - q2\<bar> \<le> u * q2"
    by (simp_all add: r2)
  show "0 < s2" by (rule s2p)
  have "u * q2 \<le> u * (2 * s)" using u q2u by (intro mult_left_mono) simp_all
  with e2 q2s show e: "\<bar>s2 - s\<bar> \<le> 3 * (u * s)" by linarith
  then show "s2 \<le> 3 * s1" using s1l us s by linarith
qed

lemma round_trip_offset:
  fixes m o' s s1 s2 u :: rat
  assumes acc: "accurate u rd" and u: "0 \<le> u" "u \<le> 1 / 1000"
    and s: "0 < s" and s1: "0 < s1" "s1 \<le> 2 * s" and s2: "0 < s2" "s2 \<le> 3 * s1"
    and rt: "\<bar>s2 - s\<bar> \<le> 3 * (u * s)"
  shows "\<bar>rd (m - rd (rd (m - rd (m - rd (rd (m - o') * rd (s1 / s)))) * rd (s2 / s1))) - o'\<bar>
           \<le> 256 * u * (\<bar>m\<bar> + \<bar>m - o'\<bar>)"
proof -
  define W where "W = \<bar>m\<bar> + \<bar>m - o'\<bar>"
  define D where "D = m - o'"
  define E where "E = u * W"
  define o1 where "o1 = rd (m - rd (rd (m - o') * rd (s1 / s)))"
  define o2 where "o2 = rd (m - rd (rd (m - o1) * rd (s2 / s1)))"
  define R1 where "R1 = s1 / s"
  define R2 where "R2 = s2 / s1"
  have W0: "0 \<le> W" and mW: "\<bar>m\<bar> \<le> W" and DW: "\<bar>D\<bar> \<le> W" by (simp_all add: W_def D_def)
  have E0: "0 \<le> E" using u W0 by (simp add: E_def)
  have R1b: "0 \<le> R1" "R1 \<le> 2" using s s1 by (simp_all add: R1_def field_simps)
  have R2b: "0 \<le> R2" "R2 \<le> 3" using s1 s2 by (simp_all add: R2_def field_simps)
  have t1: "\<bar>m - o'\<bar> \<le> 2 * W" using DW W0 by (simp add: D_def)
  have d1: "0 \<le> 40 * (u * W)" using u W0 by simp
  have i1: "\<bar>m - o' - (m - o')\<bar> \<le> 0" by simp
  have r1: "0 \<le> s1 / s" "s1 / s \<le> 3" using R1b by (simp_all add: R1_def)
  from zoom_offset_error [OF acc u mW t1 d1 i1 r1]
  have "\<bar>(m - o1) - D * R1\<bar> \<le> 4 * 0 + 34 * (u * W)"
    by (simp add: o1_def D_def R1_def)
  then have c1: "\<bar>(m - o1) - D * R1\<bar> \<le> 34 * E" unfolding E_def by linarith
  have "\<bar>D * R1\<bar> \<le> W * 2"
    unfolding abs_mult using DW R1b W0 by (intro mult_mono) simp_all
  then have T2: "\<bar>D * R1\<bar> \<le> 2 * W" by simp
  have d2: "34 * E \<le> 40 * (u * W)" using E0 unfolding E_def by linarith
  have r2: "0 \<le> s2 / s1" "s2 / s1 \<le> 3" using R2b by (simp_all add: R2_def)
  from zoom_offset_error [OF acc u mW T2 d2 c1 r2]
  have "\<bar>(m - o2) - D * R1 * R2\<bar> \<le> 4 * (34 * E) + 34 * (u * W)"
    by (simp add: o2_def R2_def)
  then have c2: "\<bar>(m - o2) - D * R1 * R2\<bar> \<le> 170 * E" unfolding E_def by linarith
  have "D * R1 * R2 - D = D * ((s2 - s) / s)"
    using s s1 by (simp add: R1_def R2_def field_simps)
  then have "\<bar>D * R1 * R2 - D\<bar> = \<bar>D\<bar> * (\<bar>s2 - s\<bar> / s)"
    using s by (simp add: abs_mult)
  also have "\<dots> \<le> W * (3 * u)"
  proof (intro mult_mono)
    have "\<bar>s2 - s\<bar> / s \<le> (3 * (u * s)) / s" using rt s by (intro divide_right_mono) simp_all
    then show "\<bar>s2 - s\<bar> / s \<le> 3 * u" using s by simp
  qed (use DW W0 s in simp_all)
  also have "W * (3 * u) = 3 * E" by (simp add: E_def)
  finally have c3: "\<bar>D * R1 * R2 - D\<bar> \<le> 3 * E" .
  define Y where "Y = D * R1 * R2"
  have "\<bar>D - (m - o2)\<bar> \<le> 173 * E"
    using c2 c3 unfolding Y_def [symmetric] by linarith
  moreover have "o2 - o' = D - (m - o2)" by (simp add: D_def)
  ultimately have "\<bar>o2 - o'\<bar> \<le> 173 * E" by simp
  also have "\<dots> \<le> 256 * E" using E0 by simp
  finally show ?thesis by (simp add: o2_def o1_def E_def W_def)
qed

lemma anchor_error:
  fixes m o' s ns u :: rat
  assumes acc: "accurate u rd" and u: "0 \<le> u" "u \<le> 1 / 1000"
    and s: "0 < s" and ns: "0 < ns" "ns \<le> 2 * s"
  shows "\<bar>rd (rd (m - o') / s) * ns + rd (m - rd (rd (m - o') * rd (ns / s))) - m\<bar>
           \<le> 64 * u * (\<bar>m\<bar> + \<bar>m - o'\<bar>)"
proof -
  define W where "W = \<bar>m\<bar> + \<bar>m - o'\<bar>"
  define D where "D = m - o'"
  define E where "E = u * W"
  define R where "R = ns / s"
  define a where "a = rd (m - o')"
  define x where "x = rd (a / s)"
  define o1 where "o1 = rd (m - rd (rd (m - o') * rd (ns / s)))"
  define X where "X = D * R"
  have W0: "0 \<le> W" and mW: "\<bar>m\<bar> \<le> W" and DW: "\<bar>D\<bar> \<le> W" by (simp_all add: W_def D_def)
  have E0: "0 \<le> E" using u W0 by (simp add: E_def)
  have "u * W \<le> (1 / 1000) * W" using u W0 by (intro mult_right_mono) simp_all
  then have EW: "1000 * E \<le> W" by (simp add: E_def)
  have Rb: "0 \<le> R" "R \<le> 2" using s ns by (simp_all add: R_def field_simps)
  have t1: "\<bar>m - o'\<bar> \<le> 2 * W" using DW W0 by (simp add: D_def)
  have d1: "0 \<le> 40 * (u * W)" using u W0 by simp
  have i1: "\<bar>m - o' - (m - o')\<bar> \<le> 0" by simp
  have r1: "0 \<le> ns / s" "ns / s \<le> 3" using Rb by (simp_all add: R_def)
  from zoom_offset_error [OF acc u mW t1 d1 i1 r1]
  have "\<bar>(m - o1) - D * R\<bar> \<le> 4 * 0 + 34 * (u * W)"
    by (simp add: o1_def D_def R_def)
  then have c1: "\<bar>(m - o1) - X\<bar> \<le> 34 * E" unfolding E_def X_def by linarith
  have "\<bar>D\<bar> \<le> 1 * W" using DW by simp
  from rd_step [OF acc u(1) this] have a1: "\<bar>a - D\<bar> \<le> E" by (simp add: a_def D_def E_def)
  then have ab: "\<bar>a\<bar> \<le> 2 * W" using DW EW E0 by linarith
  have "x * ns - a * R = (x - a / s) * ns" using s by (simp add: R_def field_simps)
  then have "\<bar>x * ns - a * R\<bar> = \<bar>x - a / s\<bar> * ns" using ns by (simp add: abs_mult)
  also have "\<dots> \<le> (u * \<bar>a / s\<bar>) * ns"
    using accurateD [OF acc, of "a / s"] ns by (intro mult_right_mono) (simp_all add: x_def)
  also have "\<dots> = u * (\<bar>a\<bar> * R)" using s ns by (simp add: R_def abs_divide)
  also have "\<dots> \<le> u * ((2 * W) * 2)"
    using u ab Rb W0 by (intro mult_left_mono mult_mono) simp_all
  also have "u * ((2 * W) * 2) = 4 * E" by (simp add: E_def)
  finally have c2: "\<bar>x * ns - a * R\<bar> \<le> 4 * E" .
  have "a * R - X = (a - D) * R" by (simp add: X_def algebra_simps)
  then have "\<bar>a * R - X\<bar> = \<bar>a - D\<bar> * R" using Rb by (simp add: abs_mult)
  also have "\<dots> \<le> E * 2" using a1 Rb E0 by (intro mult_mono) simp_all
  finally have c3: "\<bar>a * R - X\<bar> \<le> 2 * E" by simp
  define P where "P = x * ns"
  define Q where "Q = a * R"
  have "\<bar>P + o1 - m\<bar> \<le> 40 * E"
    using c1 c2 c3 unfolding P_def [symmetric] Q_def [symmetric] by linarith
  also have "\<dots> \<le> 64 * E" using E0 by simp
  finally show ?thesis by (simp add: P_def x_def a_def o1_def E_def W_def)
qed

section \<open>The viewport: zooming with the wheel\<close>

lemma handleWheel_zoom:
  assumes "containerRef e = Some rect"
  shows "handleWheel rd e ev =
     (if MIN_SCALE rd \<le> wheel_scale rd (scale (transform e)) ev \<and>
         wheel_scale rd (scale (transform e)) ev \<le> MAX_SCALE
      then Inr (e\<lparr>transform :=
             \<lparr>scale = wheel_scale rd (scale (transform e)) ev,
              offsetX = rd (rd (wheelX ev - rleft rect) -
                  rd (rd (rd (wheelX ev - rleft rect) - offsetX (transform e)) *
                      rd (wheel_scale rd (scale (transform e)) ev / scale (transform e)))),
              offsetY = rd (rd (wheelY ev - rtop rect) -
                  rd (rd (rd (wheelY ev - rtop rect) - offsetY (transform e)) *
                      rd (wheel_scale rd (scale (transform e)) ev / scale (transform e))))\<rparr>\<rparr>)
      else Inr e)"
  using assms by (auto simp add: handleWheel_def wheel_scale_def Let_def not_less not_le)

text \<open>A request within the bounds comes from a positive scale and at most doubles it.\<close>

lemma accepted_scale:
  assumes acc: "accurate u rd" and u: "0 \<le> u" "u \<le> 1 / 1000"
    and lo: "MIN_SCALE rd \<le> wheel_scale rd s ev"
  shows "0 < s" and "0 < wheel_scale rd s ev" and "wheel_scale rd s ev \<le> 2 * s"
proof -
  note z = zoom_factor_bounds [OF acc u]
  have "0 < MIN_SCALE rd"
    using accurate_pos(1) [OF acc u, of "2 / 10"] by (simp add: MIN_SCALE_def)
  with lo show p: "0 < wheel_scale rd s ev" by linarith
  show s: "0 < s"
  proof (cases "deltaY ev < 0")
    case True
    with p have "0 < rd (s * rd (11 / 10))" by (simp add: wheel_scale_def)
    from accurate_pos_rev [OF acc u this] have "0 < s * rd (11 / 10)" .
    with z show ?thesis by (simp add: zero_less_mult_iff)
  next
    case False
    with p have "0 < rd (s / rd (11 / 10))" by (simp add: wheel_scale_def)
    from accurate_pos_rev [OF acc u this] have "0 < s / rd (11 / 10)" .
    with z show ?thesis by (simp add: zero_less_divide_iff)
  qed
  show "wheel_scale rd s ev \<le> 2 * s"
  proof (cases "deltaY ev < 0")
    case True
    then have "wheel_scale rd s ev = rd (s * rd (11 / 10)) \<and>
        rd (wheel_scale rd s ev / rd (11 / 10)) = rd (wheel_scale rd s ev / rd (11 / 10)) \<or>
        wheel_scale rd s ev = rd (s / rd (11 / 10)) \<and>
        rd (wheel_scale rd s ev / rd (11 / 10)) = rd (wheel_scale rd s ev * rd (11 / 10))"
      by (simp add: wheel_scale_def)
    from zoom_scale_error(2) [OF acc u z s this] show ?thesis .
  next
    case False
    then have "wheel_scale rd s ev = rd (s * rd (11 / 10)) \<and>
        rd (wheel_scale rd s ev * rd (11 / 10)) = rd (wheel_scale rd s ev / rd (11 / 10)) \<or>
        wheel_scale rd s ev = rd (s / rd (11 / 10)) \<and>
        rd (wheel_scale rd s ev * rd (11 / 10)) = rd (wheel_scale rd s ev * rd (11 / 10))"
      by (simp add: wheel_scale_def)
    from zoom_scale_error(2) [OF acc u z s this] show ?thesis .
  qed
qed

lemma fitted_editor_loaded:
  "imageOnload round_double (mounted (blank_canvas 2 2) (box 21 21))
     \<lparr>naturalWidth = 100, naturalHeight = 1\<rparr> = Inr fitted_editor"
  by code_simp

lemma fitted22_editor_loaded:
  "imageOnload round_double (mounted (blank_canvas 2 2) (box 22 22))
     \<lparr>naturalWidth = 100, naturalHeight = 1\<rparr> = Inr fitted22_editor"
  by code_simp

text \<open>
  C1, as the specification states it, fails. In the editor that loading an image 100 wide
  into a container of 21 by 21 leaves, the scale is the double 0.21, inside the bounds.
  Turning the wheel down asks for 0.21 / 1.1, below \<open>MIN_SCALE\<close>: the clamp of the
  specification would move the scale to \<open>MIN_SCALE\<close>, a change, while \<open>handleWheel\<close>
  returns without changing anything.
\<close>

theorem C1_zoom_clamp_counterexample:
  "handleWheel round_double fitted_editor (wheel_at 10 10 100) = Inr fitted_editor \<and>
   MIN_SCALE round_double \<le> scale (transform fitted_editor) \<and>
   scale (transform fitted_editor) \<le> MAX_SCALE \<and>
   spec_clamp (round_double (scale (transform fitted_editor) / round_double (11 / 10)))
       (MIN_SCALE round_double) MAX_SCALE
     \<noteq> scale (transform fitted_editor)"
  by code_simp

text \<open>
  C1, amended: the wheel multiplies the scale by 1.1 (wheel up) or divides it by 1.1 (wheel
  down), in the arithmetic of the platform. When the result lies within
  \<open>[MIN_SCALE, MAX_SCALE]\<close> it becomes the new scale and the offset is recomputed by the
  anchored-zoom formula \<open>offset' = p - (p - offset) * (newScale / scale)\<close>; when it lies
  outside, the request is rejected and nothing changes (the scale is not clamped to the
  bound). After an accepted request the image point that was under the pointer is shown at
  the pointer up to rounding: for a rounding that is accurate to \<open>u\<close>, within
  \<open>64 * u * (|p| + |p - offset|)\<close> of it in each coordinate, and so exactly in exact
  arithmetic.
\<close>

theorem C1_handleWheel_rejects_or_anchors:
  assumes "containerRef e = Some rect"
  shows "let s = scale (transform e);
             newScale = (if deltaY ev < 0 then rd (s * rd (11 / 10)) else rd (s / rd (11 / 10)));
             mouseX = rd (wheelX ev - rleft rect);
             mouseY = rd (wheelY ev - rtop rect);
             newOffsetX = rd (mouseX - rd (rd (mouseX - offsetX (transform e)) * rd (newScale / s)));
             newOffsetY = rd (mouseY - rd (rd (mouseY - offsetY (transform e)) * rd (newScale / s)))
         in handleWheel rd e ev =
              (if MIN_SCALE rd \<le> newScale \<and> newScale \<le> MAX_SCALE
               then Inr (e\<lparr>transform :=
                           \<lparr>scale = newScale, offsetX = newOffsetX, offsetY = newOffsetY\<rparr>\<rparr>)
               else Inr e) \<and>
            (\<forall>u x y. accurate u rd \<and> 0 \<le> u \<and> u \<le> 1 / 1000 \<and>
                 MIN_SCALE rd \<le> newScale \<and> newScale \<le> MAX_SCALE \<and>
                 getTransformedPoint rd e (wheelX ev) (wheelY ev) = Some (x, y) \<longrightarrow>
               \<bar>x * newScale + newOffsetX - mouseX\<bar>
                 \<le> 64 * u * (\<bar>mouseX\<bar> + \<bar>mouseX - offsetX (transform e)\<bar>) \<and>
               \<bar>y * newScale + newOffsetY - mouseY\<bar>
                 \<le> 64 * u * (\<bar>mouseY\<bar> + \<bar>mouseY - offsetY (transform e)\<bar>))"
proof -
  let ?s = "scale (transform e)"
  let ?ns = "wheel_scale rd ?s ev"
  let ?mx = "rd (wheelX ev - rleft rect)"
  let ?my = "rd (wheelY ev - rtop rect)"
  have anchor: "\<bar>x * ?ns + rd (?mx - rd (rd (?mx - offsetX (transform e)) * rd (?ns / ?s))) - ?mx\<bar>
                 \<le> 64 * u * (\<bar>?mx\<bar> + \<bar>?mx - offsetX (transform e)\<bar>) \<and>
               \<bar>y * ?ns + rd (?my - rd (rd (?my - offsetY (transform e)) * rd (?ns / ?s))) - ?my\<bar>
                 \<le> 64 * u * (\<bar>?my\<bar> + \<bar>?my - offsetY (transform e)\<bar>)"
    if h: "accurate u rd \<and> 0 \<le> u \<and> u \<le> 1 / 1000 \<and>
           MIN_SCALE rd \<le> ?ns \<and> ?ns \<le> MAX_SCALE \<and>
           getTransformedPoint rd e (wheelX ev) (wheelY ev) = Some (x, y)" for u x y
  proof -
    from h have acc: "accurate u rd" and u: "0 \<le> u" "u \<le> 1 / 1000"
      and lo: "MIN_SCALE rd \<le> ?ns" by simp_all
    note sc = accepted_scale [OF acc u lo]
    from h assms have x: "x = rd (rd (?mx - offsetX (transform e)) / ?s)"
      and y: "y = rd (rd (?my - offsetY (transform e)) / ?s)"
      by (simp_all add: getTransformedPoint_def)
    show ?thesis
      unfolding x y
      using anchor_error [OF acc u sc, of ?mx "offsetX (transform e)"]
        anchor_error [OF acc u sc, of ?my "offsetY (transform e)"]
      by simp
  qed
  show ?thesis
    unfolding Let_def wheel_scale_def [symmetric]
    using handleWheel_zoom [OF assms, of rd ev] anchor by simp
qed

theorem C1_handleWheel_rejects_or_anchors_witness:
  "containerRef small_editor = Some (box 400 400) \<and>
   accurate (1 / 2 ^ 53) round_double \<and>
   handleWheel round_double small_editor (wheel_at 100 100 (- 100)) =
     Inr (small_editor\<lparr>transform :=
       \<lparr>scale = round_double (11 / 10),
        offsetX = - (703687441776641 / 70368744177664),
        offsetY = - (703687441776641 / 70368744177664)\<rparr>\<rparr>) \<and>
   getTransformedPoint round_double small_editor 100 100 = Some (100, 100) \<and>
   \<bar>100 * round_double (11 / 10) + - (703687441776641 / 70368744177664) - 100\<bar>
     \<le> 64 * (1 / 2 ^ 53) * (\<bar>100\<bar> + \<bar>100 - 0\<bar>) \<and>
   handleWheel round_double fitted22_editor (wheel_at 10 10 100) = Inr fitted22_editor \<and>
   handleWheel (\<lambda>x. x) fitted22_editor (wheel_at 10 10 100) \<noteq> Inr fitted22_editor"
proof -
  have c: "containerRef small_editor = Some (box 400 400)"
    by (simp add: small_editor_def mounted_def)
  have v: "scale (transform small_editor) = 1" "offsetX (transform small_editor) = 0"
    "offsetY (transform small_editor) = 0" "rleft (box 400 400) = 0" "rtop (box 400 400) = 0"
    "wheelX (wheel_at 100 100 (- 100)) = 100" "wheelY (wheel_at 100 100 (- 100)) = 100"
    "deltaY (wheel_at 100 100 (- 100)) = - 100"
    by (simp_all add: small_editor_def mounted_def box_def wheel_at_def)
  have n: "round_double 100 = 100" "round_double (round_double (11 / 10)) = round_double (11 / 10)"
    "round_double (100 - round_double (100 * round_double (11 / 10)))
       = - (703687441776641 / 70368744177664)"
    by code_simp+
  have b: "MIN_SCALE round_double \<le> round_double (11 / 10)" "round_double (11 / 10) \<le> MAX_SCALE"
    "(1 / 2 ^ 53 :: rat) \<le> 1 / 1000"
    by code_simp+
  have g: "getTransformedPoint round_double small_editor 100 100 = Some (100, 100)"
    by code_simp
  have w: "handleWheel round_double small_editor (wheel_at 100 100 (- 100)) =
     Inr (small_editor\<lparr>transform :=
       \<lparr>scale = round_double (11 / 10),
        offsetX = - (703687441776641 / 70368744177664),
        offsetY = - (703687441776641 / 70368744177664)\<rparr>\<rparr>)"
    using C1_handleWheel_rejects_or_anchors [OF c, where rd = round_double
      and ev = "wheel_at 100 100 (- 100)"] b(1,2)
    by (simp add: Let_def v n)
  have t: "\<forall>u x y. accurate u round_double \<and> 0 \<le> u \<and> u \<le> 1 / 1000 \<and>
       getTransformedPoint round_double small_editor 100 100 = Some (x, y) \<longrightarrow>
     \<bar>x * round_double (11 / 10) + - (703687441776641 / 70368744177664) - 100\<bar>
        \<le> 64 * u * (\<bar>100\<bar> + \<bar>100 - 0\<bar>)"
    using C1_handleWheel_rejects_or_anchors [OF c, where rd = round_double
      and ev = "wheel_at 100 100 (- 100)"] b(1,2)
    by (simp add: Let_def v n)
  have "(0::rat) \<le> 1 / 2 ^ 53" by simp
  with t round_double_accurate g b(3)
  have a: "\<bar>100 * round_double (11 / 10) + - (703687441776641 / 70368744177664) - 100\<bar>
     \<le> 64 * (1 / 2 ^ 53) * (\<bar>100\<bar> + \<bar>100 - 0\<bar>)"
    by blast
  have r: "handleWheel round_double fitted22_editor (wheel_at 10 10 100) = Inr fitted22_editor"
    "handleWheel (\<lambda>x. x) fitted22_editor (wheel_at 10 10 100) \<noteq> Inr fitted22_editor"
    by code_simp+
  from c round_double_accurate w g a r show ?thesis by blast
qed

text \<open>
  C9: zooming at a point and zooming back at the same point (wheel up then wheel down, or
  wheel down then wheel up; the code has no other factors than 1.1 and its inverse), neither
  request rejected by the bounds, changes nothing of the editor but the scale and the
  offset, and gives these back within tolerance: for a rounding that is accurate to \<open>u\<close>
  (for doubles, \<open>u\<close> is 2 to the power -53), the scale within \<open>3 * u * scale\<close> and each
  offset within \<open>256 * u * (|p| + |p - offset|)\<close>. In exact arithmetic, where \<open>u\<close> is 0, the
  two requests give back the editor exactly.
\<close>

theorem C9_zoom_round_trip:
  assumes acc: "accurate u rd" and u: "0 \<le> u" "u \<le> 1 / 1000"
    and c: "containerRef e = Some rect"
    and p: "wheelX ev2 = wheelX ev1" "wheelY ev2 = wheelY ev1"
    and d: "(deltaY ev1 < 0) \<noteq> (deltaY ev2 < 0)"
    and b1: "MIN_SCALE rd \<le> wheel_scale rd (scale (transform e)) ev1"
      "wheel_scale rd (scale (transform e)) ev1 \<le> MAX_SCALE"
    and b2: "MIN_SCALE rd \<le> wheel_scale rd (wheel_scale rd (scale (transform e)) ev1) ev2"
      "wheel_scale rd (wheel_scale rd (scale (transform e)) ev1) ev2 \<le> MAX_SCALE"
  shows "\<exists>e2. and_then (handleWheel rd e ev1) (\<lambda>e1. handleWheel rd e1 ev2) = Inr e2 \<and>
     e2 = e\<lparr>transform := transform e2\<rparr> \<and>
     \<bar>scale (transform e2) - scale (transform e)\<bar> \<le> 3 * u * scale (transform e) \<and>
     \<bar>offsetX (transform e2) - offsetX (transform e)\<bar>
       \<le> 256 * u * (\<bar>rd (wheelX ev1 - rleft rect)\<bar> +
            \<bar>rd (wheelX ev1 - rleft rect) - offsetX (transform e)\<bar>) \<and>
     \<bar>offsetY (transform e2) - offsetY (transform e)\<bar>
       \<le> 256 * u * (\<bar>rd (wheelY ev1 - rtop rect)\<bar> +
            \<bar>rd (wheelY ev1 - rtop rect) - offsetY (transform e)\<bar>) \<and>
     (u = 0 \<longrightarrow> e2 = e)"
proof -
  define s where "s = scale (transform e)"
  define s1 where "s1 = wheel_scale rd s ev1"
  define s2 where "s2 = wheel_scale rd s1 ev2"
  define mx where "mx = rd (wheelX ev1 - rleft rect)"
  define my where "my = rd (wheelY ev1 - rtop rect)"
  define ox where "ox = offsetX (transform e)"
  define oy where "oy = offsetY (transform e)"
  define e1 where "e1 = e\<lparr>transform := \<lparr>scale = s1,
      offsetX = rd (mx - rd (rd (mx - ox) * rd (s1 / s))),
      offsetY = rd (my - rd (rd (my - oy) * rd (s1 / s)))\<rparr>\<rparr>"
  define e2 where "e2 = e\<lparr>transform := \<lparr>scale = s2,
      offsetX = rd (mx - rd (rd (mx - rd (mx - rd (rd (mx - ox) * rd (s1 / s)))) * rd (s2 / s1))),
      offsetY = rd (my - rd (rd (my - rd (my - rd (rd (my - oy) * rd (s1 / s)))) * rd (s2 / s1)))\<rparr>\<rparr>"
  note z = zoom_factor_bounds [OF acc u]
  from b1 have lo: "MIN_SCALE rd \<le> wheel_scale rd s ev1" by (simp add: s_def)
  note sc = accepted_scale [OF acc u lo]
  have s0: "0 < s" by (rule sc(1))
  have alt: "s1 = rd (s * rd (11 / 10)) \<and> s2 = rd (s1 / rd (11 / 10)) \<or>
             s1 = rd (s / rd (11 / 10)) \<and> s2 = rd (s1 * rd (11 / 10))"
    using d by (auto simp add: s1_def s2_def wheel_scale_def)
  note se = zoom_scale_error [OF acc u z s0 alt]
  have h1: "handleWheel rd e ev1 = Inr e1"
    using b1 by (simp add: handleWheel_zoom [OF c] e1_def s1_def s_def mx_def my_def ox_def oy_def)
  have c1: "containerRef e1 = Some rect" using c by (simp add: e1_def)
  have t1: "scale (transform e1) = s1"
    "offsetX (transform e1) = rd (mx - rd (rd (mx - ox) * rd (s1 / s)))"
    "offsetY (transform e1) = rd (my - rd (rd (my - oy) * rd (s1 / s)))"
    by (simp_all add: e1_def)
  from b2 have b2': "MIN_SCALE rd \<le> wheel_scale rd s1 ev2" "wheel_scale rd s1 ev2 \<le> MAX_SCALE"
    by (simp_all add: s1_def s_def)
  have h2: "handleWheel rd e1 ev2 = Inr e2"
    using b2' by (simp add: handleWheel_zoom [OF c1] t1 p s2_def [symmetric]
        mx_def [symmetric] my_def [symmetric]) (simp add: e1_def e2_def)
  have run: "and_then (handleWheel rd e ev1) (\<lambda>e1. handleWheel rd e1 ev2) = Inr e2"
    by (simp add: h1 h2 and_then_def)
  have frame: "e2 = e\<lparr>transform := transform e2\<rparr>" by (simp add: e2_def)
  have t2: "scale (transform e2) = s2"
    "offsetX (transform e2) =
       rd (mx - rd (rd (mx - rd (mx - rd (rd (mx - ox) * rd (s1 / s)))) * rd (s2 / s1)))"
    "offsetY (transform e2) =
       rd (my - rd (rd (my - rd (my - rd (rd (my - oy) * rd (s1 / s)))) * rd (s2 / s1)))"
    by (simp_all add: e2_def)
  have bs: "\<bar>scale (transform e2) - s\<bar> \<le> 3 * u * s"
    using se(5) by (simp add: t2 mult.assoc)
  have bx: "\<bar>offsetX (transform e2) - ox\<bar> \<le> 256 * u * (\<bar>mx\<bar> + \<bar>mx - ox\<bar>)"
    unfolding t2 by (rule round_trip_offset [OF acc u s0 se])
  have by': "\<bar>offsetY (transform e2) - oy\<bar> \<le> 256 * u * (\<bar>my\<bar> + \<bar>my - oy\<bar>)"
    unfolding t2 by (rule round_trip_offset [OF acc u s0 se])
  have exact: "e2 = e" if "u = 0"
  proof -
    from that bs bx by' have "scale (transform e2) = scale (transform e)"
      "offsetX (transform e2) = offsetX (transform e)"
      "offsetY (transform e2) = offsetY (transform e)"
      by (simp_all add: s_def ox_def oy_def)
    then have "transform e2 = transform e" by simp
    with frame show ?thesis by simp
  qed
  from run frame bs bx by' exact show ?thesis
    unfolding s_def ox_def oy_def mx_def my_def by blast
qed

theorem C9_zoom_round_trip_witness:
  "accurate (1 / 2 ^ 53) round_double \<and>
   and_then (handleWheel round_double small_editor (wheel_at 100 100 (- 100)))
     (\<lambda>e1. handleWheel round_double e1 (wheel_at 100 100 100)) =
     Inr (small_editor\<lparr>transform :=
       \<lparr>scale = 1, offsetX = - (1 / 70368744177664), offsetY = - (1 / 70368744177664)\<rparr>\<rparr>) \<and>
   \<bar>- (1 / 70368744177664) - 0\<bar> \<le> 256 * (1 / 2 ^ 53) * (\<bar>100\<bar> + \<bar>100 - 0\<bar> :: rat) \<and>
   accurate 0 (\<lambda>x. x) \<and>
   and_then (handleWheel (\<lambda>x. x) small_editor (wheel_at 100 100 (- 100)))
     (\<lambda>e1. handleWheel (\<lambda>x. x) e1 (wheel_at 100 100 100)) = Inr small_editor"
proof -
  have c: "containerRef small_editor = Some (box 400 400)"
    by (simp add: small_editor_def mounted_def)
  have p: "wheelX (wheel_at 100 100 100) = wheelX (wheel_at 100 100 (- 100))"
    "wheelY (wheel_at 100 100 100) = wheelY (wheel_at 100 100 (- 100))"
    "(deltaY (wheel_at 100 100 (- 100)) < 0) \<noteq> (deltaY (wheel_at 100 100 100) < 0)"
    by (simp_all add: wheel_at_def)
  have u: "(0::rat) \<le> 1 / 2 ^ 53" "(1 / 2 ^ 53 :: rat) \<le> 1 / 1000" "(0::rat) \<le> 0"
    "(0::rat) \<le> 1 / 1000"
    by simp_all
  have b: "MIN_SCALE round_double
      \<le> wheel_scale round_double (scale (transform small_editor)) (wheel_at 100 100 (- 100))"
    "wheel_scale round_double (scale (transform small_editor)) (wheel_at 100 100 (- 100))
      \<le> MAX_SCALE"
    "MIN_SCALE round_double
      \<le> wheel_scale round_double
          (wheel_scale round_double (scale (transform small_editor)) (wheel_at 100 100 (- 100)))
          (wheel_at 100 100 100)"
    "wheel_scale round_double
        (wheel_scale round_double (scale (transform small_editor)) (wheel_at 100 100 (- 100)))
        (wheel_at 100 100 100) \<le> MAX_SCALE"
    by code_simp+
  have b': "MIN_SCALE (\<lambda>x. x)
      \<le> wheel_scale (\<lambda>x. x) (scale (transform small_editor)) (wheel_at 100 100 (- 100))"
    "wheel_scale (\<lambda>x. x) (scale (transform small_editor)) (wheel_at 100 100 (- 100))
      \<le> MAX_SCALE"
    "MIN_SCALE (\<lambda>x. x)
      \<le> wheel_scale (\<lambda>x. x)
          (wheel_scale (\<lambda>x. x) (scale (transform small_editor)) (wheel_at 100 100 (- 100)))
          (wheel_at 100 100 100)"
    "wheel_scale (\<lambda>x. x)
        (wheel_scale (\<lambda>x. x) (scale (transform small_editor)) (wheel_at 100 100 (- 100)))
        (wheel_at 100 100 100) \<le> MAX_SCALE"
    by code_simp+
  have v: "and_then (handleWheel round_double small_editor (wheel_at 100 100 (- 100)))
     (\<lambda>e1. handleWheel round_double e1 (wheel_at 100 100 100)) =
     Inr (small_editor\<lparr>transform :=
       \<lparr>scale = 1, offsetX = - (1 / 70368744177664), offsetY = - (1 / 70368744177664)\<rparr>\<rparr>)"
    by code_simp
  have n: "round_double (wheelX (wheel_at 100 100 (- 100)) - rleft (box 400 400)) = 100"
    "offsetX (transform small_editor) = 0"
    by code_simp+
  from C9_zoom_round_trip [OF round_double_accurate u(1,2) c p b]
  have r: "\<bar>- (1 / 70368744177664) - 0\<bar> \<le> 256 * (1 / 2 ^ 53) * (\<bar>100\<bar> + \<bar>100 - 0\<bar> :: rat)"
    unfolding v n by simp
  from C9_zoom_round_trip [OF identity_accurate u(3,4) c p b']
  have i: "and_then (handleWheel (\<lambda>x. x) small_editor (wheel_at 100 100 (- 100)))
     (\<lambda>e1. handleWheel (\<lambda>x. x) e1 (wheel_at 100 100 100)) = Inr small_editor"
    by auto
  from round_double_accurate v r identity_accurate i show ?thesis by blast
qed

section \<open>The pointer\<close>

text \<open>
  C10: a press of any button but the primary one is ignored. The handler returns the
  editor as it was: no gesture flag, last point, bitmap, history or view changes.
\<close>

theorem C10_other_button_ignored:
  "button ev \<noteq> 0 \<Longrightarrow> handlePointerDown rd rast e ev = e"
  by (simp add: handlePointerDown_def)

theorem C10_other_button_ignored_witness:
  "handlePointerDown round_double (\<lambda>path x y. 1) small_editor
       \<lparr>button = 2, clientX = 100, clientY = 100\<rparr>
     = small_editor \<and>
   handlePointerDown round_double (\<lambda>path x y. 1) small_editor
       \<lparr>button = 0, clientX = 100, clientY = 100\<rparr>
     \<noteq> small_editor"
proof -
  have "handlePointerDown round_double (\<lambda>path x y. 1) small_editor
       \<lparr>button = 2, clientX = 100, clientY = 100\<rparr>
     = small_editor"
    using C10_other_button_ignored
      [where ev = "\<lparr>button = 2, clientX = 100, clientY = 100\<rparr>" and rd = round_double
        and rast = "\<lambda>path x y. 1" and e = small_editor]
    by simp
  moreover have "isDrawingRef
     (handlePointerDown round_double (\<lambda>path x y. 1) small_editor
       \<lparr>button = 0, clientX = 100, clientY = 100\<rparr>)"
    by (simp add: handlePointerDown_def small_editor_def mounted_def getTransformedPoint_def
        drawLine_def brush_path_def getContext_def blank_canvas_def box_def Let_def)
  moreover have "\<not> isDrawingRef small_editor"
    by (simp add: small_editor_def mounted_def)
  ultimately show ?thesis by metis
qed

section \<open>The history\<close>

lemma run_append:
  "run rd rast e (xs @ ys) = and_then (run rd rast e xs) (\<lambda>e'. run rd rast e' ys)"
  by (induction xs arbitrary: e) (auto simp add: and_then_def split: sum.splits)

lemma putImageData_whole:
  assumes "cwidth c = w" "cheight c = h" "length (cdata c) = w * h" "snapshot_ok w h img"
  shows "putImageData img (clearRect c) = c\<lparr>cdata := idata img\<rparr>"
proof -
  have len: "length (idata img) = w * h" and iw: "iwidth img = w" and ih: "iheight img = h"
    using assms(4) by (simp_all add: snapshot_ok_def)
  have "map (\<lambda>i. if i mod w < w \<and> i div w < h then idata img ! (i div w * w + i mod w)
                  else map (\<lambda>_. transparent) (cdata c) ! i) [0..<w * h]
        = map (\<lambda>i. idata img ! i) [0..<w * h]"
  proof (rule map_cong [OF refl])
    fix i assume "i \<in> set [0..<w * h]"
    then have i: "i < w * h" by simp
    then have w0: "0 < w" by (cases w) auto
    have "i div w < h" using i by (simp add: less_mult_imp_div_less mult.commute)
    moreover have "i mod w < w" using w0 by simp
    moreover have "i div w * w + i mod w = i" by simp
    ultimately show "(if i mod w < w \<and> i div w < h then idata img ! (i div w * w + i mod w)
                  else map (\<lambda>_. transparent) (cdata c) ! i) = idata img ! i"
      by simp
  qed
  also have "\<dots> = idata img"
    using len map_nth [of "idata img"] by simp
  finally show ?thesis
    using assms(1-3) iw ih by (simp add: putImageData_def clearRect_def cong: if_cong)
qed

subsection \<open>What the brush leaves alone\<close>

lemma drawLine_fields [simp]:
  "historyRef (drawLine rd rast e x1 y1 x2 y2) = historyRef e"
  "isDrawingRef (drawLine rd rast e x1 y1 x2 y2) = isDrawingRef e"
  "isPanningRef (drawLine rd rast e x1 y1 x2 y2) = isPanningRef e"
  "lastPointRef (drawLine rd rast e x1 y1 x2 y2) = lastPointRef e"
  "transform (drawLine rd rast e x1 y1 x2 y2) = transform e"
  "containerRef (drawLine rd rast e x1 y1 x2 y2) = containerRef e"
  "historyControls (drawLine rd rast e x1 y1 x2 y2) = historyControls e"
  by (simp_all add: drawLine_def Let_def split: option.splits)

lemma stroke_canvas_ok:
  "canvas_ok w h c \<Longrightarrow> canvas_ok w h (stroke rast path op style c)"
  by (simp add: canvas_ok_def stroke_def)

lemma drawLine_session_ok:
  "session_ok w h e \<Longrightarrow> session_ok w h (drawLine rd rast e x1 y1 x2 y2)"
  by (auto simp add: session_ok_def drawLine_def getContext_def Let_def stroke_canvas_ok
      split: option.splits if_splits)

lemma handlePointerDown_history [simp]:
  "historyRef (handlePointerDown rd rast e ev) = historyRef e"
  by (simp add: handlePointerDown_def Let_def split: option.splits)

lemma handlePointerDown_panning [simp]:
  "isPanningRef (handlePointerDown rd rast e ev) = isPanningRef e"
  by (simp add: handlePointerDown_def Let_def split: option.splits)

lemma handlePointerDown_drawing:
  "button ev = 0 \<Longrightarrow> \<not> isPanningRef e \<Longrightarrow> isDrawingRef (handlePointerDown rd rast e ev)"
  by (simp add: handlePointerDown_def Let_def split: option.splits)

lemma handlePointerDown_session_ok:
  "session_ok w h e \<Longrightarrow> session_ok w h (handlePointerDown rd rast e ev)"
proof -
  assume ok: "session_ok w h e"
  have a: "\<And>f. session_ok w h (e\<lparr>lastPointRef := f\<rparr>)"
    using ok by (simp add: session_ok_def)
  have b: "\<And>f g. session_ok w h (e\<lparr>isDrawingRef := f, lastPointRef := g\<rparr>)"
    using ok by (simp add: session_ok_def)
  have c: "\<And>f. session_ok w h (e\<lparr>isDrawingRef := f\<rparr>)"
    using ok by (simp add: session_ok_def)
  show ?thesis
    using ok a b c by (simp add: handlePointerDown_def Let_def drawLine_session_ok split: option.splits)
qed

lemma handlePointerMove_fields [simp]:
  "historyRef (handlePointerMove rd rast e ev) = historyRef e"
  "isDrawingRef (handlePointerMove rd rast e ev) = isDrawingRef e"
  "isPanningRef (handlePointerMove rd rast e ev) = isPanningRef e"
  by (simp_all add: handlePointerMove_def Let_def split: option.splits)

lemma handlePointerMove_session_ok:
  "session_ok w h e \<Longrightarrow> session_ok w h (handlePointerMove rd rast e ev)"
proof -
  assume ok: "session_ok w h e"
  have a: "\<And>t p. session_ok w h (e\<lparr>transform := t, lastPointRef := p\<rparr>)"
    using ok by (simp add: session_ok_def)
  have b: "\<And>e' p. session_ok w h e' \<Longrightarrow> session_ok w h (e'\<lparr>lastPointRef := p\<rparr>)"
    by (simp add: session_ok_def)
  show ?thesis
    using ok a by (auto simp add: handlePointerMove_def Let_def intro!: b drawLine_session_ok
        split: option.splits)
qed

lemma run_moves:
  "run rd rast e (map (\<lambda>p. PointerMove (pointer_at p)) ms)
     = Inr (foldl (\<lambda>e' p. handlePointerMove rd rast e' (pointer_at p)) e ms)"
  by (induction ms arbitrary: e) (simp_all add: and_then_def)

lemma moves_keep:
  "session_ok w h e \<Longrightarrow>
   session_ok w h (foldl (\<lambda>e' p. handlePointerMove rd rast e' (pointer_at p)) e ms) \<and>
   historyRef (foldl (\<lambda>e' p. handlePointerMove rd rast e' (pointer_at p)) e ms) = historyRef e \<and>
   isDrawingRef (foldl (\<lambda>e' p. handlePointerMove rd rast e' (pointer_at p)) e ms) = isDrawingRef e \<and>
   isPanningRef (foldl (\<lambda>e' p. handlePointerMove rd rast e' (pointer_at p)) e ms) = isPanningRef e"
proof (induction ms arbitrary: e)
  case Nil
  then show ?case by simp
next
  case (Cons m ms)
  from Cons.prems have "session_ok w h (handlePointerMove rd rast e (pointer_at m))"
    by (rule handlePointerMove_session_ok)
  from Cons.IH [OF this] show ?case by simp
qed

subsection \<open>Committing a snapshot\<close>

lemma saveHistory_commits:
  assumes "session_ok w h e" and "canvasRef e = Some c"
  shows "saveHistory e =
     Inr (updateHistoryControls
       (e\<lparr>historyRef :=
            \<lparr>stack = take (nat (index (historyRef e) + 1)) (stack (historyRef e)) @ [toDataURL c],
             index = index (historyRef e) + 1\<rparr>\<rparr>))"
proof -
  from assms have c: "has2d c" "cwidth c \<noteq> 0" "cheight c \<noteq> 0"
    by (auto simp add: session_ok_def canvas_ok_def)
  from assms have i: "0 \<le> index (historyRef e)" "index (historyRef e) < int (length (stack (historyRef e)))"
    by (auto simp add: session_ok_def)
  then have len: "int (length (take (nat (index (historyRef e) + 1)) (stack (historyRef e))))
      = index (historyRef e) + 1"
    by simp
  show ?thesis
    using assms(2) c i len
    by (simp add: saveHistory_def getContext_def getImageData_def slice0_def toDataURL_def Let_def
        add.commute)
qed

lemma saveHistory_post:
  assumes "session_ok w h e"
  shows "\<exists>e' c. saveHistory e = Inr e' \<and> session_ok w h e' \<and> at_cursor e' \<and>
           canvasRef e' = Some c \<and> canvasRef e = Some c \<and>
           isPanningRef e' = isPanningRef e \<and>
           historyRef e' =
             \<lparr>stack = take (nat (index (historyRef e) + 1)) (stack (historyRef e)) @ [toDataURL c],
              index = index (historyRef e) + 1\<rparr> \<and>
           historyControls e' = \<lparr>canUndo = True, canRedo = False\<rparr>"
proof -
  from assms obtain c where c: "canvasRef e = Some c" and cok: "canvas_ok w h c"
    by (auto simp add: session_ok_def split: option.splits)
  let ?st = "take (nat (index (historyRef e) + 1)) (stack (historyRef e))"
  let ?e' = "updateHistoryControls
       (e\<lparr>historyRef := \<lparr>stack = ?st @ [toDataURL c], index = index (historyRef e) + 1\<rparr>\<rparr>)"
  from assms have i: "0 \<le> index (historyRef e)"
      "index (historyRef e) < int (length (stack (historyRef e)))"
    and snaps: "list_all (snapshot_ok w h) (stack (historyRef e))" and wh: "0 < w" "0 < h"
    by (auto simp add: session_ok_def)
  have len: "length ?st = nat (index (historyRef e) + 1)"
    using i by simp
  have snap: "snapshot_ok w h (toDataURL c)"
    using cok by (simp add: snapshot_ok_def canvas_ok_def toDataURL_def)
  have snaps': "list_all (snapshot_ok w h) ?st"
    using snaps by (auto simp add: list_all_iff dest: in_set_takeD)
  have "saveHistory e = Inr ?e'"
    using assms c by (rule saveHistory_commits)
  moreover have "session_ok w h ?e'"
    using c cok wh snap snaps' i len
    by (simp add: session_ok_def updateHistoryControls_def)
  moreover have "at_cursor ?e'"
    using c i len
    by (simp add: at_cursor_def updateHistoryControls_def js_index_def nth_append)
  moreover have "historyControls ?e' = \<lparr>canUndo = True, canRedo = False\<rparr>"
    using i len by (simp add: updateHistoryControls_def)
  ultimately show ?thesis
    using c by (auto simp add: updateHistoryControls_def)
qed

lemma handleClear_post:
  assumes "session_ok w h e"
  shows "\<exists>e' c. handleClear e = Inr e' \<and> session_ok w h e' \<and> at_cursor e' \<and>
           canvasRef e' = Some c \<and>
           isPanningRef e' = isPanningRef e \<and>
           historyRef e' =
             \<lparr>stack = take (nat (index (historyRef e) + 1)) (stack (historyRef e)) @ [toDataURL c],
              index = index (historyRef e) + 1\<rparr> \<and>
           historyControls e' = \<lparr>canUndo = True, canRedo = False\<rparr>"
proof -
  from assms obtain c where c: "canvasRef e = Some c" and cok: "canvas_ok w h c"
    by (auto simp add: session_ok_def split: option.splits)
  let ?e1 = "e\<lparr>canvasRef := Some (clearRect c)\<rparr>"
  have "canvas_ok w h (clearRect c)"
    using cok by (simp add: canvas_ok_def clearRect_def)
  then have ok1: "session_ok w h ?e1"
    using assms by (simp add: session_ok_def)
  have "handleClear e = saveHistory ?e1"
    using c cok by (simp add: handleClear_def getContext_def canvas_ok_def)
  with saveHistory_post [OF ok1] show ?thesis by auto
qed

lemma handlePointerUp_post:
  assumes "session_ok w h e" and "isDrawingRef e"
  shows "\<exists>e' c. handlePointerUp e = Inr e' \<and> session_ok w h e' \<and> at_cursor e' \<and>
           canvasRef e' = Some c \<and> canvasRef e = Some c \<and>
           isPanningRef e' = isPanningRef e \<and>
           historyRef e' =
             \<lparr>stack = take (nat (index (historyRef e) + 1)) (stack (historyRef e)) @ [toDataURL c],
              index = index (historyRef e) + 1\<rparr> \<and>
           historyControls e' = \<lparr>canUndo = True, canRedo = False\<rparr>"
proof -
  from saveHistory_post [OF assms(1)] obtain e1 c where
    s: "saveHistory e = Inr e1" and ok: "session_ok w h e1" and cur: "at_cursor e1"
    and c: "canvasRef e1 = Some c" "canvasRef e = Some c"
    and rest: "isPanningRef e1 = isPanningRef e"
      "historyRef e1 =
             \<lparr>stack = take (nat (index (historyRef e) + 1)) (stack (historyRef e)) @ [toDataURL c],
              index = index (historyRef e) + 1\<rparr>"
      "historyControls e1 = \<lparr>canUndo = True, canRedo = False\<rparr>"
    by blast
  let ?e' = "e1\<lparr>isDrawingRef := False, lastPointRef := None\<rparr>"
  have "handlePointerUp e = Inr ?e'"
    using assms(2) s by (simp add: handlePointerUp_def)
  moreover have "session_ok w h ?e'" using ok by (simp add: session_ok_def)
  moreover have "at_cursor ?e'" using cur by (simp add: at_cursor_def split: option.splits)
  ultimately show ?thesis using c rest by auto
qed

lemma gesture_commits:
  assumes "session_ok w h e" and "\<not> isPanningRef e"
  shows "\<exists>e' c. run rd rast e (gesture_events g) = Inr e' \<and> session_ok w h e' \<and> at_cursor e' \<and>
           canvasRef e' = Some c \<and>
           \<not> isPanningRef e' \<and>
           historyRef e' =
             \<lparr>stack = take (nat (index (historyRef e) + 1)) (stack (historyRef e)) @ [toDataURL c],
              index = index (historyRef e) + 1\<rparr> \<and>
           historyControls e' = \<lparr>canUndo = True, canRedo = False\<rparr>"
proof (cases g)
  case ClearMask
  from handleClear_post [OF assms(1)] assms(2) show ?thesis
    unfolding ClearMask by (auto simp add: and_then_def)
next
  case (Stroke x y ms)
  let ?e1 = "handlePointerDown rd rast e (pointer_at (x, y))"
  let ?e2 = "foldl (\<lambda>e' p. handlePointerMove rd rast e' (pointer_at p)) ?e1 ms"
  have ok1: "session_ok w h ?e1"
    using assms(1) by (rule handlePointerDown_session_ok)
  have d1: "isDrawingRef ?e1"
    using assms(2) by (simp add: handlePointerDown_drawing pointer_at_def)
  from moves_keep [OF ok1, of rd rast ms] d1 assms(2)
  have ok2: "session_ok w h ?e2" and h2: "historyRef ?e2 = historyRef e"
    and d2: "isDrawingRef ?e2" and p2: "\<not> isPanningRef ?e2"
    by simp_all
  have "run rd rast e (gesture_events g) = handlePointerUp ?e2"
    unfolding Stroke
    by (simp add: and_then_def run_append run_moves split: sum.splits)
  with handlePointerUp_post [OF ok2 d2] h2 p2 show ?thesis by auto
qed

lemma gestures_commit:
  assumes "session_ok w h e" and "\<not> isPanningRef e"
  shows "\<exists>e'. run rd rast e (concat (map gesture_events gs)) = Inr e' \<and> session_ok w h e' \<and>
           (gs = [] \<longrightarrow> e' = e) \<and> (gs \<noteq> [] \<longrightarrow> at_cursor e') \<and> \<not> isPanningRef e' \<and>
           index (historyRef e') = index (historyRef e) + int (length gs) \<and>
           take (nat (index (historyRef e) + 1)) (stack (historyRef e'))
             = take (nat (index (historyRef e) + 1)) (stack (historyRef e))"
  using assms
proof (induction gs arbitrary: e)
  case Nil
  then show ?case by simp
next
  case (Cons g gs)
  from gesture_commits [OF Cons.prems, of rd rast g] obtain e1 c where
    r1: "run rd rast e (gesture_events g) = Inr e1" and ok1: "session_ok w h e1"
    and cur1: "at_cursor e1" and p1: "\<not> isPanningRef e1"
    and h1: "historyRef e1 =
             \<lparr>stack = take (nat (index (historyRef e) + 1)) (stack (historyRef e)) @ [toDataURL c],
              index = index (historyRef e) + 1\<rparr>"
    by blast
  from Cons.IH [OF ok1 p1] obtain e2 where
    r2: "run rd rast e1 (concat (map gesture_events gs)) = Inr e2" and ok2: "session_ok w h e2"
    and e2: "gs = [] \<longrightarrow> e2 = e1" "gs \<noteq> [] \<longrightarrow> at_cursor e2" and p2: "\<not> isPanningRef e2"
    and i2: "index (historyRef e2) = index (historyRef e1) + int (length gs)"
    and t2: "take (nat (index (historyRef e1) + 1)) (stack (historyRef e2))
             = take (nat (index (historyRef e1) + 1)) (stack (historyRef e1))"
    by blast
  from Cons.prems have i: "0 \<le> index (historyRef e)"
      "index (historyRef e) < int (length (stack (historyRef e)))"
    by (auto simp add: session_ok_def)
  have run: "run rd rast e (concat (map gesture_events (g # gs))) = Inr e2"
    using r1 r2 by (simp add: run_append and_then_def)
  have cur2: "at_cursor e2" using e2 cur1 by (cases gs) auto
  have le: "nat (index (historyRef e) + 1) \<le> nat (index (historyRef e1) + 1)"
    using h1 i by simp
  have "take (nat (index (historyRef e) + 1)) (stack (historyRef e2))
      = take (nat (index (historyRef e) + 1)) (take (nat (index (historyRef e1) + 1)) (stack (historyRef e2)))"
    using le by (simp add: min_def)
  also have "\<dots> = take (nat (index (historyRef e) + 1)) (take (nat (index (historyRef e1) + 1)) (stack (historyRef e1)))"
    using t2 by simp
  also have "\<dots> = take (nat (index (historyRef e) + 1)) (stack (historyRef e1))"
    using le by (simp add: min_def)
  also have "\<dots> = take (nat (index (historyRef e) + 1)) (stack (historyRef e))"
    using h1 i by simp
  finally have t: "take (nat (index (historyRef e) + 1)) (stack (historyRef e2))
      = take (nat (index (historyRef e) + 1)) (stack (historyRef e))" .
  show ?case
    using run ok2 cur2 p2 i2 h1 t by auto
qed

subsection \<open>Stepping back\<close>

lemma handleUndo_back:
  assumes "session_ok w h e" and "0 < index (historyRef e)"
  shows "\<exists>e'. handleUndo e = Inr e' \<and> session_ok w h e' \<and> at_cursor e' \<and>
           index (historyRef e') = index (historyRef e) - 1 \<and>
           stack (historyRef e') = stack (historyRef e)"
proof -
  from assms obtain c where c: "canvasRef e = Some c" and cok: "canvas_ok w h c"
    by (auto simp add: session_ok_def split: option.splits)
  from assms have i: "index (historyRef e) < int (length (stack (historyRef e)))"
    and snaps: "list_all (snapshot_ok w h) (stack (historyRef e))" and wh: "0 < w" "0 < h"
    by (auto simp add: session_ok_def)
  let ?n = "nat (index (historyRef e) - 1)"
  let ?img = "stack (historyRef e) ! ?n"
  have n: "?n < length (stack (historyRef e))"
    using assms(2) i by simp
  then have img: "snapshot_ok w h ?img"
    using snaps by (simp add: list_all_length)
  have j: "js_index (stack (historyRef e)) (index (historyRef e) - 1) = Some ?img"
    using assms(2) i by (simp add: js_index_def)
  have put: "putImageData ?img (clearRect c) = c\<lparr>cdata := idata ?img\<rparr>"
    using cok img by (intro putImageData_whole [of c w h]) (simp_all add: canvas_ok_def)
  let ?e' = "updateHistoryControls
     (e\<lparr>canvasRef := Some (c\<lparr>cdata := idata ?img\<rparr>),
        historyRef := (historyRef e)\<lparr>index := index (historyRef e) - 1\<rparr>\<rparr>)"
  have "handleUndo e = Inr ?e'"
    using assms(2) c cok j put by (simp add: handleUndo_def getContext_def canvas_ok_def Let_def)
  moreover have "session_ok w h ?e'"
    using cok img wh snaps assms(2) i
    by (simp add: session_ok_def updateHistoryControls_def canvas_ok_def snapshot_ok_def)
  moreover have "toDataURL (c\<lparr>cdata := idata ?img\<rparr>) = ?img"
    using cok img by (simp add: toDataURL_def canvas_ok_def snapshot_ok_def)
  then have "at_cursor ?e'"
    using j by (simp add: at_cursor_def updateHistoryControls_def)
  ultimately show ?thesis
    by (auto simp add: updateHistoryControls_def)
qed

lemma undo_all:
  assumes "session_ok w h e" and "at_cursor e" and "index (historyRef e) = int n"
  shows "\<exists>e'. run rd rast e (replicate n ClickUndo) = Inr e' \<and> session_ok w h e' \<and> at_cursor e' \<and>
           index (historyRef e') = 0 \<and> stack (historyRef e') = stack (historyRef e)"
  using assms
proof (induction n arbitrary: e)
  case 0
  then show ?case by simp
next
  case (Suc n)
  from Suc.prems have "0 < index (historyRef e)" by simp
  from handleUndo_back [OF Suc.prems(1) this] obtain e1 where
    u: "handleUndo e = Inr e1" and ok1: "session_ok w h e1" and cur1: "at_cursor e1"
    and i1: "index (historyRef e1) = index (historyRef e) - 1"
    and s1: "stack (historyRef e1) = stack (historyRef e)"
    by blast
  from i1 Suc.prems have "index (historyRef e1) = int n" by simp
  from Suc.IH [OF ok1 cur1 this] u s1 show ?case
    by (auto simp add: and_then_def)
qed

subsection \<open>Loading an image\<close>

lemma resetView_fields [simp]:
  "canvasRef (resetView rd e) = canvasRef e"
  "historyRef (resetView rd e) = historyRef e"
  "isPanningRef (resetView rd e) = isPanningRef e"
  "isDrawingRef (resetView rd e) = isDrawingRef e"
  "historyControls (resetView rd e) = historyControls e"
  by (simp_all add: resetView_def Let_def split: option.splits)

lemma imageOnload_loaded:
  assumes "canvasRef e = Some c" and "has2d c" and "imageOnload rd e im = Inr e1"
  shows "session_ok (naturalWidth im) (naturalHeight im) e1 \<and> at_cursor e1 \<and>
         isPanningRef e1 = isPanningRef e \<and>
         canvasRef e1 = Some (resize_canvas (naturalWidth im) (naturalHeight im) c) \<and>
         historyRef e1 =
           \<lparr>stack = [toDataURL (resize_canvas (naturalWidth im) (naturalHeight im) c)], index = 0\<rparr>"
proof -
  let ?c = "resize_canvas (naturalWidth im) (naturalHeight im) c"
  let ?e0 = "case imageRef e of None \<Rightarrow> e | Some x \<Rightarrow> e\<lparr>imageRef := Some im\<rparr>"
  have c0: "canvasRef ?e0 = Some c" and p0: "isPanningRef ?e0 = isPanningRef e"
    using assms(1) by (simp_all split: option.splits)
  have ctx: "getContext ?c = Some ?c"
    using assms(2) by (simp add: getContext_def resize_canvas_def)
  have pos: "0 < naturalWidth im \<and> 0 < naturalHeight im"
  proof (rule ccontr)
    assume "\<not> ?thesis"
    then have "getImageData ?c = Inl IndexSizeError"
      by (auto simp add: getImageData_def resize_canvas_def)
    then have "imageOnload rd e im = Inl IndexSizeError"
      using c0 ctx by (simp add: imageOnload_def Let_def)
    with assms(3) show False by simp
  qed
  then have img: "getImageData ?c = Inr (toDataURL ?c)"
    by (simp add: getImageData_def toDataURL_def resize_canvas_def)
  have e1: "e1 = resetView rd (updateHistoryControls
       (?e0\<lparr>canvasRef := Some ?c, historyRef := \<lparr>stack = [toDataURL ?c], index = 0\<rparr>\<rparr>))"
    using assms(3) c0 ctx img by (simp add: imageOnload_def Let_def)
  have cok: "canvas_ok (naturalWidth im) (naturalHeight im) ?c"
    using assms(2) by (simp add: canvas_ok_def resize_canvas_def)
  then have snap: "snapshot_ok (naturalWidth im) (naturalHeight im) (toDataURL ?c)"
    by (simp add: snapshot_ok_def canvas_ok_def toDataURL_def)
  show ?thesis
    unfolding e1 using pos cok snap p0
    by (simp add: session_ok_def at_cursor_def updateHistoryControls_def js_index_def)
qed

subsection \<open>Concrete runs\<close>

lemma small_editor_canvas:
  "canvasRef small_editor = Some (blank_canvas 2 2)" "has2d (blank_canvas 2 2)"
  "\<not> isPanningRef small_editor"
  by (simp_all add: small_editor_def mounted_def blank_canvas_def)

lemma loaded_editor_loaded:
  "imageOnload round_double small_editor one_pixel = Inr loaded_editor"
  by code_simp

subsection \<open>The claims on the history\<close>

text \<open>
  C5: \<open>saveHistory\<close>, the push of the history, keeps the entries up to and including the
  cursor, drops those after it, appends the snapshot of the live bitmap and moves the cursor
  to the new last index. The snapshot is a value of its own: painting on the canvas
  afterwards changes no entry of the stack. In a loaded editor, with the pan key up, the
  gestures draw, draw, undo, draw leave a stack of three entries, the first two those that
  the first gesture left, the cursor on the last entry and \<open>canRedo\<close> false: the
  entry of the second gesture is gone.
\<close>

theorem C5_push_truncates_redo_branch:
  "(\<forall>c. canvasRef e = Some c \<and> has2d c \<and> 0 < cwidth c \<and> 0 < cheight c \<and>
         - 1 \<le> index (historyRef e) \<longrightarrow>
      saveHistory e =
        Inr (updateHistoryControls
          (e\<lparr>historyRef :=
               \<lparr>stack = take (nat (index (historyRef e) + 1)) (stack (historyRef e)) @ [toDataURL c],
                index = int (length (take (nat (index (historyRef e) + 1)) (stack (historyRef e))
                                      @ [toDataURL c])) - 1\<rparr>\<rparr>))) \<and>
   stack (historyRef (drawLine rd rast e px py qx qy)) = stack (historyRef e) \<and>
   (\<forall>c e1. canvasRef e = Some c \<and> has2d c \<and> \<not> isPanningRef e \<and> imageOnload rd e im = Inr e1 \<longrightarrow>
      (\<exists>e2 e5. run rd rast e1 (gesture_events ga) = Inr e2 \<and>
         run rd rast e1 (gesture_events ga @ gesture_events gb @ [ClickUndo] @ gesture_events gc) = Inr e5 \<and>
         canRedo (historyControls e5) = False \<and>
         index (historyRef e5) = 2 \<and>
         length (stack (historyRef e5)) = 3 \<and>
         take 2 (stack (historyRef e5)) = stack (historyRef e2)))"
proof (intro conjI allI impI)
  fix c
  assume a: "canvasRef e = Some c \<and> has2d c \<and> 0 < cwidth c \<and> 0 < cheight c \<and>
         - 1 \<le> index (historyRef e)"
  then show "saveHistory e =
        Inr (updateHistoryControls
          (e\<lparr>historyRef :=
               \<lparr>stack = take (nat (index (historyRef e) + 1)) (stack (historyRef e)) @ [toDataURL c],
                index = int (length (take (nat (index (historyRef e) + 1)) (stack (historyRef e))
                                      @ [toDataURL c])) - 1\<rparr>\<rparr>))"
    by (simp add: saveHistory_def getContext_def getImageData_def slice0_def toDataURL_def Let_def)
next
  show "stack (historyRef (drawLine rd rast e px py qx qy)) = stack (historyRef e)"
    by simp
next
  fix c e1
  assume a: "canvasRef e = Some c \<and> has2d c \<and> \<not> isPanningRef e \<and> imageOnload rd e im = Inr e1"
  let ?w = "naturalWidth im" and ?h = "naturalHeight im"
  from a imageOnload_loaded [of e c rd im e1]
  have ok1: "session_ok ?w ?h e1" and p1: "\<not> isPanningRef e1"
    and h1: "historyRef e1 = \<lparr>stack = [toDataURL (resize_canvas ?w ?h c)], index = 0\<rparr>"
    by simp_all
  from gesture_commits [OF ok1 p1, of rd rast ga] obtain e2 c2 where
    r2: "run rd rast e1 (gesture_events ga) = Inr e2" and ok2: "session_ok ?w ?h e2"
    and p2: "\<not> isPanningRef e2"
    and h2: "historyRef e2 = \<lparr>stack = [toDataURL (resize_canvas ?w ?h c), toDataURL c2], index = 1\<rparr>"
    using h1 by auto
  from gesture_commits [OF ok2 p2, of rd rast gb] obtain e3 c3 where
    r3: "run rd rast e2 (gesture_events gb) = Inr e3" and ok3: "session_ok ?w ?h e3"
    and p3: "\<not> isPanningRef e3"
    and h3: "historyRef e3 =
       \<lparr>stack = [toDataURL (resize_canvas ?w ?h c), toDataURL c2, toDataURL c3], index = 2\<rparr>"
    using h2 by auto
  from handleUndo_back [OF ok3] h3 obtain e4 where
    r4: "handleUndo e3 = Inr e4" and ok4: "session_ok ?w ?h e4"
    and i4: "index (historyRef e4) = 1"
    and s4: "stack (historyRef e4) = [toDataURL (resize_canvas ?w ?h c), toDataURL c2, toDataURL c3]"
    by auto
  have p4: "\<not> isPanningRef e4"
    using r4 p3 by (auto simp add: handleUndo_def updateHistoryControls_def Let_def
        split: if_splits option.splits)
  from gesture_commits [OF ok4 p4, of rd rast gc] obtain e5 c5 where
    r5: "run rd rast e4 (gesture_events gc) = Inr e5"
    and h5: "historyRef e5 =
       \<lparr>stack = [toDataURL (resize_canvas ?w ?h c), toDataURL c2, toDataURL c5], index = 2\<rparr>"
    and k5: "historyControls e5 = \<lparr>canUndo = True, canRedo = False\<rparr>"
    using i4 s4 by auto
  have "run rd rast e1 (gesture_events ga @ gesture_events gb @ [ClickUndo] @ gesture_events gc) = Inr e5"
    using r2 r3 r4 r5 by (simp add: run_append and_then_def)
  with r2 h2 h5 k5
  show "\<exists>e2 e5. run rd rast e1 (gesture_events ga) = Inr e2 \<and>
         run rd rast e1 (gesture_events ga @ gesture_events gb @ [ClickUndo] @ gesture_events gc) = Inr e5 \<and>
         canRedo (historyControls e5) = False \<and>
         index (historyRef e5) = 2 \<and>
         length (stack (historyRef e5)) = 3 \<and>
         take 2 (stack (historyRef e5)) = stack (historyRef e2)"
    by auto
qed

theorem C5_push_truncates_redo_branch_witness:
  "saveHistory small_editor =
     Inr (small_editor\<lparr>historyRef := \<lparr>stack = [toDataURL (blank_canvas 2 2)], index = 0\<rparr>\<rparr>) \<and>
   imageOnload round_double small_editor one_pixel = Inr loaded_editor \<and>
   (\<exists>e2 e5. run round_double full_cover loaded_editor (gesture_events (Stroke 100 100 [])) = Inr e2 \<and>
      run round_double full_cover loaded_editor
        (gesture_events (Stroke 100 100 []) @ gesture_events ClearMask @ [ClickUndo] @
         gesture_events (Stroke 200 200 [(201, 200)])) = Inr e5 \<and>
      canRedo (historyControls e5) = False \<and>
      index (historyRef e5) = 2 \<and>
      length (stack (historyRef e5)) = 3 \<and>
      take 2 (stack (historyRef e5)) = stack (historyRef e2))"
proof -
  note t = C5_push_truncates_redo_branch [where e = small_editor and rd = round_double and rast = full_cover
      and im = one_pixel and ga = "Stroke 100 100 []" and gb = ClearMask
      and gc = "Stroke 200 200 [(201, 200)]"]
  have h: "canvasRef small_editor = Some (blank_canvas 2 2) \<and> has2d (blank_canvas 2 2) \<and>
      0 < cwidth (blank_canvas 2 2) \<and> 0 < cheight (blank_canvas 2 2) \<and>
      - 1 \<le> index (historyRef small_editor)"
    by (simp add: small_editor_def mounted_def blank_canvas_def)
  have k: "canvasRef small_editor = Some (blank_canvas 2 2) \<and> has2d (blank_canvas 2 2) \<and>
      \<not> isPanningRef small_editor \<and> imageOnload round_double small_editor one_pixel = Inr loaded_editor"
    using small_editor_canvas loaded_editor_loaded by simp
  from t h have "saveHistory small_editor =
        Inr (updateHistoryControls
          (small_editor\<lparr>historyRef :=
               \<lparr>stack = take (nat (index (historyRef small_editor) + 1)) (stack (historyRef small_editor))
                          @ [toDataURL (blank_canvas 2 2)],
                index = int (length (take (nat (index (historyRef small_editor) + 1))
                          (stack (historyRef small_editor)) @ [toDataURL (blank_canvas 2 2)])) - 1\<rparr>\<rparr>))"
    by blast
  then have a: "saveHistory small_editor =
     Inr (small_editor\<lparr>historyRef := \<lparr>stack = [toDataURL (blank_canvas 2 2)], index = 0\<rparr>\<rparr>)"
    by (simp add: small_editor_def mounted_def updateHistoryControls_def)
  from t k have "\<exists>e2 e5. run round_double full_cover loaded_editor (gesture_events (Stroke 100 100 [])) = Inr e2 \<and>
      run round_double full_cover loaded_editor
        (gesture_events (Stroke 100 100 []) @ gesture_events ClearMask @ [ClickUndo] @
         gesture_events (Stroke 200 200 [(201, 200)])) = Inr e5 \<and>
      canRedo (historyControls e5) = False \<and>
      index (historyRef e5) = 2 \<and>
      length (stack (historyRef e5)) = 3 \<and>
      take 2 (stack (historyRef e5)) = stack (historyRef e2)"
    by blast
  with a k show ?thesis by blast
qed

text \<open>
  C6: in an editor that has loaded an image, with the pan key up, any sequence of committed
  gestures, strokes and clears, moves the history cursor forward by its length, and as many
  undos bring the cursor back to 0 and the canvas back to what the load left: the bitmap is
  the blank snapshot that the load recorded, pixel for pixel.
\<close>

theorem C6_undo_all_restores_blank:
  assumes "canvasRef e = Some c" and "has2d c" and "\<not> isPanningRef e"
    and "imageOnload rd e im = Inr e1"
  shows "\<exists>e2 e3. run rd rast e1 (concat (map gesture_events gs)) = Inr e2 \<and>
           index (historyRef e2) = int (length gs) \<and>
           run rd rast e2 (replicate (length gs) ClickUndo) = Inr e3 \<and>
           index (historyRef e3) = 0 \<and>
           canvasRef e3 = canvasRef e1 \<and>
           map_option toDataURL (canvasRef e3) = Some (hd (stack (historyRef e1))) \<and>
           map_option cdata (canvasRef e3)
             = Some (replicate (naturalWidth im * naturalHeight im) transparent)"
proof -
  let ?w = "naturalWidth im" and ?h = "naturalHeight im"
  let ?c = "resize_canvas ?w ?h c"
  from assms imageOnload_loaded [of e c rd im e1]
  have ok1: "session_ok ?w ?h e1" and cur1: "at_cursor e1" and p1: "\<not> isPanningRef e1"
    and c1: "canvasRef e1 = Some ?c"
    and h1: "historyRef e1 = \<lparr>stack = [toDataURL ?c], index = 0\<rparr>"
    by simp_all
  from gestures_commit [OF ok1 p1, of rd rast gs] obtain e2 where
    r2: "run rd rast e1 (concat (map gesture_events gs)) = Inr e2" and ok2: "session_ok ?w ?h e2"
    and cur2: "gs = [] \<longrightarrow> e2 = e1" "gs \<noteq> [] \<longrightarrow> at_cursor e2"
    and i2: "index (historyRef e2) = int (length gs)"
    and t2: "take 1 (stack (historyRef e2)) = [toDataURL ?c]"
    using h1 by auto
  have cur2': "at_cursor e2" using cur1 cur2 by (cases gs) auto
  from undo_all [OF ok2 cur2' i2, of rd rast] obtain e3 where
    r3: "run rd rast e2 (replicate (length gs) ClickUndo) = Inr e3"
    and cur3: "at_cursor e3" and i3: "index (historyRef e3) = 0"
    and s3: "stack (historyRef e3) = stack (historyRef e2)" and ok3: "session_ok ?w ?h e3"
    by blast
  from ok3 obtain c3 where c3: "canvasRef e3 = Some c3" and cok3: "canvas_ok ?w ?h c3"
    by (auto simp add: session_ok_def split: option.splits)
  from ok2 have "stack (historyRef e2) \<noteq> []" by (auto simp add: session_ok_def)
  with t2 have "stack (historyRef e2) ! 0 = toDataURL ?c"
    by (cases "stack (historyRef e2)") auto
  with cur3 i3 s3 c3 have d3: "toDataURL c3 = toDataURL ?c"
    by (auto simp add: at_cursor_def js_index_def split: if_splits)
  have "has2d ?c" using assms(2) by (simp add: resize_canvas_def)
  with d3 cok3 have "c3 = ?c"
    by (simp add: toDataURL_def canvas_ok_def)
  with c3 c1 h1 r2 i2 r3 i3 show ?thesis
    by (simp add: resize_canvas_def)
qed

theorem C6_undo_all_restores_blank_witness:
  "imageOnload round_double small_editor one_pixel = Inr loaded_editor \<and>
   (\<exists>e2 e3. run round_double full_cover loaded_editor
        (concat (map gesture_events [Stroke 100 100 [(101, 100)], ClearMask])) = Inr e2 \<and>
      index (historyRef e2) = 2 \<and>
      run round_double full_cover e2 [ClickUndo, ClickUndo] = Inr e3 \<and>
      index (historyRef e3) = 0 \<and>
      canvasRef e3 = canvasRef loaded_editor \<and>
      map_option toDataURL (canvasRef e3) = Some (hd (stack (historyRef loaded_editor))) \<and>
      map_option cdata (canvasRef e3) = Some [transparent])"
proof -
  have "\<exists>e2 e3. run round_double full_cover loaded_editor
        (concat (map gesture_events [Stroke 100 100 [(101, 100)], ClearMask])) = Inr e2 \<and>
      index (historyRef e2) = int (length [Stroke 100 100 [(101, 100)], ClearMask]) \<and>
      run round_double full_cover e2 (replicate (length [Stroke 100 100 [(101, 100)], ClearMask]) ClickUndo) = Inr e3 \<and>
      index (historyRef e3) = 0 \<and>
      canvasRef e3 = canvasRef loaded_editor \<and>
      map_option toDataURL (canvasRef e3) = Some (hd (stack (historyRef loaded_editor))) \<and>
      map_option cdata (canvasRef e3)
        = Some (replicate (naturalWidth one_pixel * naturalHeight one_pixel) transparent)"
    using small_editor_canvas loaded_editor_loaded
    by (rule C6_undo_all_restores_blank)
  then show ?thesis
    using loaded_editor_loaded by (simp add: one_pixel_def numeral_2_eq_2)
qed

subsection \<open>The history controls follow the history\<close>

lemma updateHistoryControls_current [simp]:
  "controls_current (updateHistoryControls e)"
  by (simp add: controls_current_def updateHistoryControls_def)

lemma controls_current_cong:
  "historyRef e' = historyRef e \<Longrightarrow> historyControls e' = historyControls e \<Longrightarrow>
   controls_current e \<Longrightarrow> controls_current e'"
  by (simp add: controls_current_def)

lemma handlePointerDown_controls [simp]:
  "historyControls (handlePointerDown rd rast e ev) = historyControls e"
  by (simp add: handlePointerDown_def Let_def split: option.splits)

lemma handlePointerMove_controls [simp]:
  "historyControls (handlePointerMove rd rast e ev) = historyControls e"
  by (simp add: handlePointerMove_def Let_def split: option.splits)

lemma saveHistory_current:
  "saveHistory e = Inr e' \<Longrightarrow> controls_current e \<Longrightarrow> controls_current e'"
  by (auto simp add: saveHistory_def Let_def split: option.splits sum.splits)

lemma handlePointerUp_current:
  "handlePointerUp e = Inr e' \<Longrightarrow> controls_current e \<Longrightarrow> controls_current e'"
  by (auto simp add: handlePointerUp_def controls_current_def
      dest!: saveHistory_current split: if_splits sum.splits)

lemma handleWheel_current:
  "handleWheel rd e ev = Inr e' \<Longrightarrow> controls_current e \<Longrightarrow> controls_current e'"
  by (auto simp add: handleWheel_def controls_current_def Let_def split: if_splits option.splits)

lemma handleUndo_current:
  "handleUndo e = Inr e' \<Longrightarrow> controls_current e \<Longrightarrow> controls_current e'"
  by (auto simp add: handleUndo_def Let_def split: if_splits option.splits)

lemma handleRedo_current:
  "handleRedo e = Inr e' \<Longrightarrow> controls_current e \<Longrightarrow> controls_current e'"
  by (auto simp add: handleRedo_def Let_def split: if_splits option.splits)

lemma set_cursor_current [simp]:
  "controls_current (set_cursor s e) = controls_current e"
  by (simp add: set_cursor_def controls_current_def split: option.splits)

lemma handleKeyDown_current:
  assumes "handleKeyDown e ev = Inr e'" and "controls_current e"
  shows "controls_current e'"
proof -
  have p: "controls_current (e\<lparr>isPanningRef := True\<rparr>)"
    using assms(2) by (simp add: controls_current_def)
  consider (pan) "key ev = '' '' \<and> \<not> isPanningRef e"
    | (undo) "\<not> (key ev = '' '' \<and> \<not> isPanningRef e)" "(ctrlKey ev \<or> metaKey ev) \<and> key ev = ''z''"
    | (redo) "\<not> (key ev = '' '' \<and> \<not> isPanningRef e)" "\<not> ((ctrlKey ev \<or> metaKey ev) \<and> key ev = ''z'')"
        "(ctrlKey ev \<or> metaKey ev) \<and> key ev = ''y''"
    | (none) "\<not> (key ev = '' '' \<and> \<not> isPanningRef e)" "\<not> ((ctrlKey ev \<or> metaKey ev) \<and> key ev = ''z'')"
        "\<not> ((ctrlKey ev \<or> metaKey ev) \<and> key ev = ''y'')"
    by blast
  then show ?thesis
  proof cases
    case pan
    with assms(1) have "e' = set_cursor ''grab'' (e\<lparr>isPanningRef := True\<rparr>)"
      by (simp add: handleKeyDown_def)
    with p show ?thesis by simp
  next
    case undo
    with assms(1) have "handleUndo e = Inr e'"
      by (simp add: handleKeyDown_def)
    then show ?thesis using assms(2) by (rule handleUndo_current)
  next
    case redo
    with assms(1) have "handleRedo e = Inr e'"
      by (simp add: handleKeyDown_def)
    then show ?thesis using assms(2) by (rule handleRedo_current)
  next
    case none
    with assms(1) have "e' = e"
      by (simp add: handleKeyDown_def)
    with assms(2) show ?thesis by simp
  qed
qed

lemma handleKeyUp_current:
  "controls_current e \<Longrightarrow> controls_current (handleKeyUp e ev)"
  by (simp add: handleKeyUp_def controls_current_def [of e]
      controls_current_def [of "e\<lparr>isPanningRef := False, lastPointRef := None\<rparr>"])

lemma handleClear_current:
  "handleClear e = Inr e' \<Longrightarrow> controls_current e \<Longrightarrow> controls_current e'"
proof -
  assume r: "handleClear e = Inr e'" and c: "controls_current e"
  have "\<And>x. controls_current (e\<lparr>canvasRef := x\<rparr>)"
    using c by (simp add: controls_current_def)
  with r c show ?thesis
    by (auto simp add: handleClear_def dest: saveHistory_current split: option.splits)
qed

lemma handleZoom_current:
  "handleZoom rd e dir = Inr e' \<Longrightarrow> controls_current e \<Longrightarrow> controls_current e'"
  by (auto simp add: handleZoom_def dest: handleWheel_current split: option.splits)

lemma resetView_current:
  "controls_current e \<Longrightarrow> controls_current (resetView rd e)"
  by (simp add: controls_current_def)

lemma imageOnload_current:
  "imageOnload rd e im = Inr e' \<Longrightarrow> controls_current e \<Longrightarrow> controls_current e'"
proof -
  assume r: "imageOnload rd e im = Inr e'" and c: "controls_current e"
  let ?e0 = "case imageRef e of None \<Rightarrow> e | Some x \<Rightarrow> e\<lparr>imageRef := Some im\<rparr>"
  have c0: "controls_current ?e0"
    using c by (simp add: controls_current_def split: option.splits)
  then have c1: "\<And>x. controls_current (?e0\<lparr>canvasRef := x\<rparr>)"
    by (simp add: controls_current_def)
  have u: "\<And>a. controls_current (resetView rd (updateHistoryControls a))"
    by (intro resetView_current) simp
  from r c0 c1 show ?thesis
    by (auto simp add: imageOnload_def Let_def u intro!: resetView_current
        split: option.splits sum.splits)
qed

lemma step_current:
  assumes "step rd rast e ev = Inr e'" and "controls_current e"
  shows "controls_current e'"
proof (cases ev)
  case (PointerDown x)
  with assms show ?thesis by (auto intro: controls_current_cong [of _ e])
next
  case (PointerMove x)
  with assms show ?thesis by (auto intro: controls_current_cong [of _ e])
next
  case PointerUp
  with assms show ?thesis by (auto dest: handlePointerUp_current)
next
  case PointerLeave
  with assms show ?thesis by (auto dest: handlePointerUp_current)
next
  case (Wheel x)
  with assms show ?thesis by (auto dest: handleWheel_current)
next
  case (KeyDown x)
  with assms show ?thesis by (auto dest: handleKeyDown_current)
next
  case (KeyUp x)
  with assms show ?thesis by (auto intro: handleKeyUp_current)
next
  case ClickUndo
  with assms show ?thesis by (auto dest: handleUndo_current)
next
  case ClickRedo
  with assms show ?thesis by (auto dest: handleRedo_current)
next
  case ClickClear
  with assms show ?thesis by (auto dest: handleClear_current)
next
  case (ClickZoom x)
  with assms show ?thesis by (auto dest: handleZoom_current)
next
  case ClickResetView
  with assms show ?thesis by (auto intro: resetView_current)
next
  case (ImageLoad x)
  with assms show ?thesis by (auto dest: imageOnload_current)
next
  case WindowResize
  with assms show ?thesis by (auto intro: resetView_current)
qed (use assms in \<open>auto simp add: controls_current_def\<close>)

lemma run_current:
  "run rd rast e evs = Inr e' \<Longrightarrow> controls_current e \<Longrightarrow> controls_current e'"
proof (induction evs arbitrary: e)
  case Nil
  then show ?case by simp
next
  case (Cons ev evs)
  from Cons.prems(1) obtain e1 where s: "step rd rast e ev = Inr e1" and r: "run rd rast e1 evs = Inr e'"
    by (auto simp add: and_then_def split: sum.splits)
  from step_current [OF s Cons.prems(2)] Cons.IH [OF r] show ?case by simp
qed

lemma mounted_current:
  "controls_current (mounted canvas container)"
  by (simp add: controls_current_def mounted_def)

text \<open>
  C7: at the first entry \<open>handleUndo\<close>, and at the last entry \<open>handleRedo\<close>, returns the
  editor as it was, and does not throw. The host is told by \<open>canUndo\<close> and \<open>canRedo\<close>,
  which \<open>updateHistoryControls\<close> sets to \<open>index > 0\<close> and \<open>index < length - 1\<close>, and which
  have these values after every run of events of the mounted component.
\<close>

theorem C7_history_boundaries:
  "(index (historyRef e) \<le> 0 \<longrightarrow> handleUndo e = Inr e) \<and>
   (int (length (stack (historyRef e))) - 1 \<le> index (historyRef e) \<longrightarrow> handleRedo e = Inr e) \<and>
   canUndo (historyControls (updateHistoryControls e)) = (0 < index (historyRef e)) \<and>
   canRedo (historyControls (updateHistoryControls e))
     = (index (historyRef e) < int (length (stack (historyRef e))) - 1) \<and>
   (\<forall>evs e'. run rd rast (mounted canvas container) evs = Inr e' \<longrightarrow>
      canUndo (historyControls e') = (0 < index (historyRef e')) \<and>
      canRedo (historyControls e')
        = (index (historyRef e') < int (length (stack (historyRef e'))) - 1))"
proof -
  have "\<And>evs e'. run rd rast (mounted canvas container) evs = Inr e' \<Longrightarrow>
      canUndo (historyControls e') = (0 < index (historyRef e')) \<and>
      canRedo (historyControls e')
        = (index (historyRef e') < int (length (stack (historyRef e'))) - 1)"
    using run_current [OF _ mounted_current] by (simp add: controls_current_def)
  then show ?thesis
    by (simp add: handleUndo_def handleRedo_def updateHistoryControls_def)
qed

theorem C7_history_boundaries_witness:
  "index (historyRef loaded_editor) = 0 \<and>
   int (length (stack (historyRef loaded_editor))) - 1 = 0 \<and>
   run round_double full_cover (mounted (blank_canvas 2 2) (box 400 400)) [ImageLoad one_pixel] = Inr loaded_editor \<and>
   handleUndo loaded_editor = Inr loaded_editor \<and>
   handleRedo loaded_editor = Inr loaded_editor \<and>
   canUndo (historyControls (updateHistoryControls loaded_editor)) = False \<and>
   canRedo (historyControls (updateHistoryControls loaded_editor)) = False \<and>
   canUndo (historyControls loaded_editor) = False \<and>
   canRedo (historyControls loaded_editor) = False"
proof -
  have i: "index (historyRef loaded_editor) = 0"
    and l: "int (length (stack (historyRef loaded_editor))) - 1 = 0"
    by (simp_all add: loaded_editor_def)
  have r: "run round_double full_cover (mounted (blank_canvas 2 2) (box 400 400)) [ImageLoad one_pixel]
      = Inr loaded_editor"
    using loaded_editor_loaded by (simp add: and_then_def small_editor_def)
  note t = C7_history_boundaries [where e = loaded_editor and rd = round_double and rast = full_cover
      and canvas = "blank_canvas 2 2" and container = "box 400 400"]
  from t r have "canUndo (historyControls loaded_editor) = (0 < index (historyRef loaded_editor)) \<and>
      canRedo (historyControls loaded_editor)
        = (index (historyRef loaded_editor) < int (length (stack (historyRef loaded_editor))) - 1)"
    by blast
  with t i l r show ?thesis
    by simp
qed

section \<open>The keyboard during a gesture\<close>

lemma drawing_editor_reached:
  "run round_double full_cover small_editor
     [ImageLoad one_pixel, PointerDown (pointer_at (200, 200)), PointerUp,
      PointerDown (pointer_at (200, 200))] = Inr drawing_editor"
  by code_simp

text \<open>
  C2, as the specification states it, fails. \<open>drawing_editor\<close> is in the middle of a
  stroke: the drawing flag is set and the pan key is up. The undo shortcut is not ignored
  there: the cursor of the history goes from 1 to 0 and the canvas is replaced by the blank
  snapshot.
\<close>

theorem C2_undo_mid_stroke_counterexample:
  "isDrawingRef drawing_editor \<and> \<not> isPanningRef drawing_editor \<and>
   index (historyRef drawing_editor) = 1 \<and>
   canvasRef drawing_editor = Some \<lparr>cwidth = 1, cheight = 1, cdata = [pink_twice], has2d = True\<rparr> \<and>
   handleKeyDown drawing_editor ctrl_z =
     Inr (drawing_editor
       \<lparr>canvasRef := Some \<lparr>cwidth = 1, cheight = 1, cdata = [transparent], has2d = True\<rparr>,
        historyRef := (historyRef drawing_editor)\<lparr>index := 0\<rparr>,
        historyControls := \<lparr>canUndo = False, canRedo = True\<rparr>\<rparr>) \<and>
   pink_twice \<noteq> transparent"
  by (simp add: drawing_editor_def ctrl_z_def handleKeyDown_def handleUndo_def getContext_def
      js_index_def putImageData_def clearRect_def updateHistoryControls_def pink_twice_def
      transparent_def Let_def)

text \<open>
  C2, amended: the undo and the redo shortcut are not tied to the gesture state. With
  Ctrl or Cmd held, the key z runs \<open>handleUndo\<close> and the key y runs \<open>handleRedo\<close> whether
  the editor is idle, drawing or panning; the two flags have no influence on what
  \<open>handleUndo\<close> and \<open>handleRedo\<close> do. With the cursor above 0, a canvas with a context and
  a snapshot below the cursor, \<open>handleUndo\<close> moves the cursor back by one and replaces the
  live bitmap by that snapshot; with the cursor below the last index, a canvas with a
  context and a snapshot above the cursor, \<open>handleRedo\<close> moves the cursor forward by one
  and replaces the live bitmap by that snapshot.
\<close>

theorem C2_shortcuts_in_every_state:
  assumes "ctrlKey ev \<or> metaKey ev"
  shows "(key ev = ''z'' \<longrightarrow> handleKeyDown e ev = handleUndo e) \<and>
         (key ev = ''y'' \<longrightarrow> handleKeyDown e ev = handleRedo e) \<and>
         handleUndo (e\<lparr>isDrawingRef := d, isPanningRef := p\<rparr>)
           = map_sum id (\<lambda>e'. e'\<lparr>isDrawingRef := d, isPanningRef := p\<rparr>) (handleUndo e) \<and>
         handleRedo (e\<lparr>isDrawingRef := d, isPanningRef := p\<rparr>)
           = map_sum id (\<lambda>e'. e'\<lparr>isDrawingRef := d, isPanningRef := p\<rparr>) (handleRedo e) \<and>
         (\<forall>c img. 0 < index (historyRef e) \<and> canvasRef e = Some c \<and> has2d c \<and>
             js_index (stack (historyRef e)) (index (historyRef e) - 1) = Some img \<longrightarrow>
             handleUndo e =
               Inr (updateHistoryControls
                 (e\<lparr>canvasRef := Some (putImageData img (clearRect c)),
                    historyRef := (historyRef e)\<lparr>index := index (historyRef e) - 1\<rparr>\<rparr>))) \<and>
         (\<forall>c img. index (historyRef e) < int (length (stack (historyRef e))) - 1 \<and>
             canvasRef e = Some c \<and> has2d c \<and>
             js_index (stack (historyRef e)) (index (historyRef e) + 1) = Some img \<longrightarrow>
             handleRedo e =
               Inr (updateHistoryControls
                 (e\<lparr>canvasRef := Some (putImageData img (clearRect c)),
                    historyRef := (historyRef e)\<lparr>index := index (historyRef e) + 1\<rparr>\<rparr>)))"
proof (intro conjI impI allI)
  assume "key ev = ''z''"
  with assms show "handleKeyDown e ev = handleUndo e"
    by (simp add: handleKeyDown_def)
next
  assume "key ev = ''y''"
  with assms show "handleKeyDown e ev = handleRedo e"
    by (simp add: handleKeyDown_def)
next
  show "handleUndo (e\<lparr>isDrawingRef := d, isPanningRef := p\<rparr>)
           = map_sum id (\<lambda>e'. e'\<lparr>isDrawingRef := d, isPanningRef := p\<rparr>) (handleUndo e)"
    by (simp add: handleUndo_def updateHistoryControls_def Let_def split: option.splits)
next
  show "handleRedo (e\<lparr>isDrawingRef := d, isPanningRef := p\<rparr>)
           = map_sum id (\<lambda>e'. e'\<lparr>isDrawingRef := d, isPanningRef := p\<rparr>) (handleRedo e)"
    by (simp add: handleRedo_def updateHistoryControls_def Let_def split: option.splits)
next
  fix c img
  assume "0 < index (historyRef e) \<and> canvasRef e = Some c \<and> has2d c \<and>
             js_index (stack (historyRef e)) (index (historyRef e) - 1) = Some img"
  then show "handleUndo e =
               Inr (updateHistoryControls
                 (e\<lparr>canvasRef := Some (putImageData img (clearRect c)),
                    historyRef := (historyRef e)\<lparr>index := index (historyRef e) - 1\<rparr>\<rparr>))"
    by (simp add: handleUndo_def getContext_def Let_def)
next
  fix c img
  assume "index (historyRef e) < int (length (stack (historyRef e))) - 1 \<and>
             canvasRef e = Some c \<and> has2d c \<and>
             js_index (stack (historyRef e)) (index (historyRef e) + 1) = Some img"
  then show "handleRedo e =
               Inr (updateHistoryControls
                 (e\<lparr>canvasRef := Some (putImageData img (clearRect c)),
                    historyRef := (historyRef e)\<lparr>index := index (historyRef e) + 1\<rparr>\<rparr>))"
    by (simp add: handleRedo_def getContext_def Let_def)
qed

theorem C2_shortcuts_in_every_state_witness:
  "(ctrlKey ctrl_z \<or> metaKey ctrl_z) \<and> key ctrl_z = ''z'' \<and>
   handleKeyDown drawing_editor ctrl_z = handleUndo drawing_editor \<and>
   handleUndo drawing_editor = Inr undone_editor \<and>
   handleUndo (drawing_editor\<lparr>isDrawingRef := False, isPanningRef := True\<rparr>) =
     Inr (undone_editor\<lparr>isDrawingRef := False, isPanningRef := True\<rparr>) \<and>
   (ctrlKey ctrl_y \<or> metaKey ctrl_y) \<and> key ctrl_y = ''y'' \<and>
   isDrawingRef undone_editor \<and>
   handleKeyDown undone_editor ctrl_y = handleRedo undone_editor \<and>
   handleRedo undone_editor =
     Inr (drawing_editor
       \<lparr>canvasRef := Some \<lparr>cwidth = 1, cheight = 1, cdata = [pink_once], has2d = True\<rparr>\<rparr>)"
proof -
  have k: "ctrlKey ctrl_z \<or> metaKey ctrl_z" and z: "key ctrl_z = ''z''"
    by (simp_all add: ctrl_z_def)
  have k': "ctrlKey ctrl_y \<or> metaKey ctrl_y" and y: "key ctrl_y = ''y''"
    by (simp_all add: ctrl_y_def)
  note t = C2_shortcuts_in_every_state [OF k, where e = drawing_editor and d = False and p = True]
  note t' = C2_shortcuts_in_every_state [OF k', where e = undone_editor and d = False and p = True]
  have h: "0 < index (historyRef drawing_editor) \<and>
      canvasRef drawing_editor = Some \<lparr>cwidth = 1, cheight = 1, cdata = [pink_twice], has2d = True\<rparr> \<and>
      has2d \<lparr>cwidth = 1, cheight = 1, cdata = [pink_twice], has2d = True\<rparr> \<and>
      js_index (stack (historyRef drawing_editor)) (index (historyRef drawing_editor) - 1)
        = Some \<lparr>iwidth = 1, iheight = 1, idata = [transparent]\<rparr>"
    by (simp add: drawing_editor_def js_index_def)
  have h': "index (historyRef undone_editor) < int (length (stack (historyRef undone_editor))) - 1 \<and>
      canvasRef undone_editor = Some \<lparr>cwidth = 1, cheight = 1, cdata = [transparent], has2d = True\<rparr> \<and>
      has2d \<lparr>cwidth = 1, cheight = 1, cdata = [transparent], has2d = True\<rparr> \<and>
      js_index (stack (historyRef undone_editor)) (index (historyRef undone_editor) + 1)
        = Some \<lparr>iwidth = 1, iheight = 1, idata = [pink_once]\<rparr>"
    by (simp add: undone_editor_def drawing_editor_def js_index_def)
  from t z have a: "handleKeyDown drawing_editor ctrl_z = handleUndo drawing_editor"
    by blast
  from t h have "handleUndo drawing_editor =
      Inr (updateHistoryControls
        (drawing_editor\<lparr>canvasRef := Some (putImageData \<lparr>iwidth = 1, iheight = 1, idata = [transparent]\<rparr>
              (clearRect \<lparr>cwidth = 1, cheight = 1, cdata = [pink_twice], has2d = True\<rparr>)),
           historyRef := (historyRef drawing_editor)\<lparr>index := index (historyRef drawing_editor) - 1\<rparr>\<rparr>))"
    by blast
  then have b: "handleUndo drawing_editor = Inr undone_editor"
    by (simp add: undone_editor_def drawing_editor_def putImageData_def clearRect_def
        updateHistoryControls_def)
  from t b have c: "handleUndo (drawing_editor\<lparr>isDrawingRef := False, isPanningRef := True\<rparr>) =
     Inr (undone_editor\<lparr>isDrawingRef := False, isPanningRef := True\<rparr>)"
    by simp
  have s: "isDrawingRef undone_editor"
    by (simp add: undone_editor_def drawing_editor_def)
  from t' y have a': "handleKeyDown undone_editor ctrl_y = handleRedo undone_editor"
    by blast
  from t' h' have "handleRedo undone_editor =
      Inr (updateHistoryControls
        (undone_editor\<lparr>canvasRef := Some (putImageData \<lparr>iwidth = 1, iheight = 1, idata = [pink_once]\<rparr>
              (clearRect \<lparr>cwidth = 1, cheight = 1, cdata = [transparent], has2d = True\<rparr>)),
           historyRef := (historyRef undone_editor)\<lparr>index := index (historyRef undone_editor) + 1\<rparr>\<rparr>))"
    by blast
  then have b': "handleRedo undone_editor =
     Inr (drawing_editor
       \<lparr>canvasRef := Some \<lparr>cwidth = 1, cheight = 1, cdata = [pink_once], has2d = True\<rparr>\<rparr>)"
    by (simp add: undone_editor_def drawing_editor_def putImageData_def clearRect_def
        updateHistoryControls_def)
  from k z a b c k' y s a' b' show ?thesis by blast
qed

text \<open>
  C3, as the specification states it, fails. In \<open>drawing_editor\<close>, in the middle of a
  stroke, the pan key is not a no-op: it sets the panning flag and the grab cursor. The
  next pointer move, to (210, 200), then pans the view (the offset goes from (199.5, 199.5)
  to (409, 399)) and paints nothing, where the same move without the key paints a segment.
\<close>

theorem C3_pan_key_mid_stroke_counterexample:
  "isDrawingRef drawing_editor \<and> \<not> isPanningRef drawing_editor \<and>
   handleKeyDown drawing_editor space_key =
     Inr (drawing_editor
       \<lparr>isPanningRef := True,
        containerRef := Some \<lparr>rleft = 0, rtop = 0, rwidth = 400, rheight = 400, cursor = ''grab''\<rparr>\<rparr>) \<and>
   handlePointerMove round_double full_cover
     (drawing_editor
       \<lparr>isPanningRef := True,
        containerRef := Some \<lparr>rleft = 0, rtop = 0, rwidth = 400, rheight = 400, cursor = ''grab''\<rparr>\<rparr>)
     (pointer_at (210, 200)) =
     drawing_editor
       \<lparr>isPanningRef := True,
        containerRef := Some \<lparr>rleft = 0, rtop = 0, rwidth = 400, rheight = 400, cursor = ''grab''\<rparr>,
        transform := \<lparr>scale = 1, offsetX = 409, offsetY = 399\<rparr>,
        lastPointRef := Some (210, 200)\<rparr> \<and>
   canvasRef (handlePointerMove round_double full_cover drawing_editor (pointer_at (210, 200)))
     \<noteq> canvasRef drawing_editor"
  by code_simp

lemma pan_step:
  assumes "isPanningRef e" and "lastPointRef e = Some lp"
  shows "handlePointerMove rd rast e mv =
     e\<lparr>transform := (transform e)
          \<lparr>offsetX := rd (offsetX (transform e) + rd (clientX mv - fst lp)),
           offsetY := rd (offsetY (transform e) + rd (clientY mv - snd lp))\<rparr>,
       lastPointRef := Some (clientX mv, clientY mv)\<rparr>"
  using assms by (simp add: handlePointerMove_def Let_def)

lemma pan_moves:
  assumes "isPanningRef e" and "lastPointRef e = Some lp"
  shows "isPanningRef (moves rd rast e mvs) \<and>
     lastPointRef (moves rd rast e mvs)
       = Some (if mvs = [] then lp else (clientX (last mvs), clientY (last mvs))) \<and>
     canvasRef (moves rd rast e mvs) = canvasRef e \<and>
     historyRef (moves rd rast e mvs) = historyRef e \<and>
     isDrawingRef (moves rd rast e mvs) = isDrawingRef e \<and>
     scale (transform (moves rd rast e mvs)) = scale (transform e)"
proof (induction mvs rule: rev_induct)
  case Nil
  from assms show ?case by (simp add: moves_def)
next
  case (snoc mv mvs)
  then have p: "isPanningRef (moves rd rast e mvs)"
    and l: "lastPointRef (moves rd rast e mvs)
       = Some (if mvs = [] then lp else (clientX (last mvs), clientY (last mvs)))"
    by simp_all
  have "moves rd rast e (mvs @ [mv]) = handlePointerMove rd rast (moves rd rast e mvs) mv"
    by (simp add: moves_def)
  with snoc show ?case by (simp add: pan_step [OF p l])
qed

text \<open>
  C3, amended: pressing the pan key while a stroke is in progress, the pan key not yet
  held, sets the panning flag and the grab cursor and leaves the drawing flag set; it
  touches neither the bitmap nor the history. With a last point recorded, every pointer
  move that follows, as long as the key is held, pans the view and paints nothing: it adds
  to the offset the pointer position minus the last point, in the arithmetic of the
  platform, and records the pointer position as the last point; it keeps the scale, both
  flags, the bitmap and the history. The last point of the first such move is the last
  point of the stroke, in image coordinates; that of a later move is the position of the
  move before it.
\<close>

theorem C3_pan_key_takes_over_stroke:
  assumes "isDrawingRef e" and "\<not> isPanningRef e" and "key ev = '' ''"
  shows "handleKeyDown e ev = Inr (set_cursor ''grab'' (e\<lparr>isPanningRef := True\<rparr>)) \<and>
         canvasRef (set_cursor ''grab'' (e\<lparr>isPanningRef := True\<rparr>)) = canvasRef e \<and>
         historyRef (set_cursor ''grab'' (e\<lparr>isPanningRef := True\<rparr>)) = historyRef e \<and>
         isDrawingRef (set_cursor ''grab'' (e\<lparr>isPanningRef := True\<rparr>)) \<and>
         isPanningRef (set_cursor ''grab'' (e\<lparr>isPanningRef := True\<rparr>)) \<and>
         (\<forall>lastPoint mvs mv. lastPointRef e = Some lastPoint \<longrightarrow>
            (let e2 = moves rd rast (set_cursor ''grab'' (e\<lparr>isPanningRef := True\<rparr>)) mvs;
                 lp = (if mvs = [] then lastPoint else (clientX (last mvs), clientY (last mvs)))
             in handlePointerMove rd rast e2 mv =
                  e2\<lparr>transform := (transform e2)
                        \<lparr>offsetX := rd (offsetX (transform e2) + rd (clientX mv - fst lp)),
                         offsetY := rd (offsetY (transform e2) + rd (clientY mv - snd lp))\<rparr>,
                     lastPointRef := Some (clientX mv, clientY mv)\<rparr> \<and>
                canvasRef e2 = canvasRef e \<and>
                historyRef e2 = historyRef e \<and>
                isDrawingRef e2 \<and>
                isPanningRef e2 \<and>
                lastPointRef e2 = Some lp \<and>
                scale (transform e2) = scale (transform e)))"
proof -
  let ?e1 = "set_cursor ''grab'' (e\<lparr>isPanningRef := True\<rparr>)"
  have k: "handleKeyDown e ev = Inr ?e1"
    using assms by (simp add: handleKeyDown_def)
  have f: "canvasRef ?e1 = canvasRef e" "historyRef ?e1 = historyRef e" "isDrawingRef ?e1"
    "isPanningRef ?e1" "lastPointRef ?e1 = lastPointRef e" "transform ?e1 = transform e"
    using assms by (simp_all add: set_cursor_def split: option.splits)
  have m: "(let e2 = moves rd rast ?e1 mvs;
                 lp = (if mvs = [] then lastPoint else (clientX (last mvs), clientY (last mvs)))
             in handlePointerMove rd rast e2 mv =
                  e2\<lparr>transform := (transform e2)
                        \<lparr>offsetX := rd (offsetX (transform e2) + rd (clientX mv - fst lp)),
                         offsetY := rd (offsetY (transform e2) + rd (clientY mv - snd lp))\<rparr>,
                     lastPointRef := Some (clientX mv, clientY mv)\<rparr> \<and>
                canvasRef e2 = canvasRef e \<and>
                historyRef e2 = historyRef e \<and>
                isDrawingRef e2 \<and>
                isPanningRef e2 \<and>
                lastPointRef e2 = Some lp \<and>
                scale (transform e2) = scale (transform e))"
    if l: "lastPointRef e = Some lastPoint" for lastPoint mvs mv
  proof -
    from l f have l1: "lastPointRef ?e1 = Some lastPoint" by simp
    note pm = pan_moves [OF f(4) l1, of rd rast mvs]
    from pm have p2: "isPanningRef (moves rd rast ?e1 mvs)"
      and l2: "lastPointRef (moves rd rast ?e1 mvs)
        = Some (if mvs = [] then lastPoint else (clientX (last mvs), clientY (last mvs)))"
      by simp_all
    from pm f show ?thesis
      unfolding Let_def pan_step [OF p2 l2] by simp
  qed
  from k f m show ?thesis by blast
qed

theorem C3_pan_key_takes_over_stroke_witness:
  "isDrawingRef drawing_editor \<and> \<not> isPanningRef drawing_editor \<and> key space_key = '' '' \<and>
   lastPointRef drawing_editor = Some (1 / 2, 1 / 2) \<and>
   handleKeyDown drawing_editor space_key
     = Inr (set_cursor ''grab'' (drawing_editor\<lparr>isPanningRef := True\<rparr>)) \<and>
   handlePointerMove round_double full_cover
       (set_cursor ''grab'' (drawing_editor\<lparr>isPanningRef := True\<rparr>)) (pointer_at (210, 200))
     = drawing_editor
       \<lparr>isPanningRef := True,
        containerRef := Some \<lparr>rleft = 0, rtop = 0, rwidth = 400, rheight = 400, cursor = ''grab''\<rparr>,
        transform := \<lparr>scale = 1, offsetX = 409, offsetY = 399\<rparr>,
        lastPointRef := Some (210, 200)\<rparr> \<and>
   handlePointerMove round_double full_cover
       (moves round_double full_cover
          (set_cursor ''grab'' (drawing_editor\<lparr>isPanningRef := True\<rparr>)) [pointer_at (210, 200)])
       (pointer_at (220, 190))
     = drawing_editor
       \<lparr>isPanningRef := True,
        containerRef := Some \<lparr>rleft = 0, rtop = 0, rwidth = 400, rheight = 400, cursor = ''grab''\<rparr>,
        transform := \<lparr>scale = 1, offsetX = 419, offsetY = 389\<rparr>,
        lastPointRef := Some (220, 190)\<rparr> \<and>
   canvasRef (moves round_double full_cover
          (set_cursor ''grab'' (drawing_editor\<lparr>isPanningRef := True\<rparr>)) [pointer_at (210, 200)])
     = canvasRef drawing_editor"
proof -
  have d: "isDrawingRef drawing_editor" and p: "\<not> isPanningRef drawing_editor"
    and l: "lastPointRef drawing_editor = Some (1 / 2, 1 / 2)"
    by (simp_all add: drawing_editor_def)
  have k: "key space_key = '' ''"
    by (simp add: space_key_def)
  note t = C3_pan_key_takes_over_stroke [OF d p k, where rd = round_double and rast = full_cover,
      unfolded Let_def]
  from t have a: "handleKeyDown drawing_editor space_key
     = Inr (set_cursor ''grab'' (drawing_editor\<lparr>isPanningRef := True\<rparr>))"
    by blast
  have e1: "set_cursor ''grab'' (drawing_editor\<lparr>isPanningRef := True\<rparr>) = drawing_editor
       \<lparr>isPanningRef := True,
        containerRef := Some \<lparr>rleft = 0, rtop = 0, rwidth = 400, rheight = 400, cursor = ''grab''\<rparr>\<rparr>"
    by (simp add: set_cursor_def drawing_editor_def)
  have n: "round_double (399 / 2 + round_double (210 - 1 / 2)) = 409"
    "round_double (399 / 2 + round_double (200 - 1 / 2)) = 399"
    "round_double (409 + round_double (220 - 210)) = 419"
    "round_double (399 + round_double (190 - 200)) = 389"
    "round_double (399 / 2 + round_double (419 / 2)) = 409"
    "round_double (399 / 2 + round_double (399 / 2)) = 399"
    "round_double (409 + round_double 10) = 419"
    "round_double (399 + round_double (- 10)) = 389"
    by code_simp+
  from t l have "handlePointerMove round_double full_cover
       (moves round_double full_cover
         (set_cursor ''grab'' (drawing_editor\<lparr>isPanningRef := True\<rparr>)) []) (pointer_at (210, 200))
     = (moves round_double full_cover
         (set_cursor ''grab'' (drawing_editor\<lparr>isPanningRef := True\<rparr>)) [])
       \<lparr>transform := (transform (moves round_double full_cover
             (set_cursor ''grab'' (drawing_editor\<lparr>isPanningRef := True\<rparr>)) []))
          \<lparr>offsetX := round_double (offsetX (transform (moves round_double full_cover
             (set_cursor ''grab'' (drawing_editor\<lparr>isPanningRef := True\<rparr>)) []))
               + round_double (clientX (pointer_at (210, 200)) - fst (1 / 2 :: rat, 1 / 2 :: rat))),
           offsetY := round_double (offsetY (transform (moves round_double full_cover
             (set_cursor ''grab'' (drawing_editor\<lparr>isPanningRef := True\<rparr>)) []))
               + round_double (clientY (pointer_at (210, 200)) - snd (1 / 2 :: rat, 1 / 2 :: rat)))\<rparr>,
        lastPointRef := Some (clientX (pointer_at (210, 200)), clientY (pointer_at (210, 200)))\<rparr>"
    by (auto dest!: spec [where x = "(1 / 2, 1 / 2)"] spec [where x = "[]"]
        spec [where x = "pointer_at (210, 200)"])
  then have b: "handlePointerMove round_double full_cover
       (set_cursor ''grab'' (drawing_editor\<lparr>isPanningRef := True\<rparr>)) (pointer_at (210, 200))
     = drawing_editor
       \<lparr>isPanningRef := True,
        containerRef := Some \<lparr>rleft = 0, rtop = 0, rwidth = 400, rheight = 400, cursor = ''grab''\<rparr>,
        transform := \<lparr>scale = 1, offsetX = 409, offsetY = 399\<rparr>,
        lastPointRef := Some (210, 200)\<rparr>"
    unfolding moves_def foldl.simps e1
    by (simp add: drawing_editor_def pointer_at_def n)
  have m: "moves round_double full_cover
          (set_cursor ''grab'' (drawing_editor\<lparr>isPanningRef := True\<rparr>)) [pointer_at (210, 200)]
     = drawing_editor
       \<lparr>isPanningRef := True,
        containerRef := Some \<lparr>rleft = 0, rtop = 0, rwidth = 400, rheight = 400, cursor = ''grab''\<rparr>,
        transform := \<lparr>scale = 1, offsetX = 409, offsetY = 399\<rparr>,
        lastPointRef := Some (210, 200)\<rparr>"
    using b by (simp add: moves_def)
  from t l have "handlePointerMove round_double full_cover
       (moves round_double full_cover
         (set_cursor ''grab'' (drawing_editor\<lparr>isPanningRef := True\<rparr>)) [pointer_at (210, 200)])
       (pointer_at (220, 190))
     = (moves round_double full_cover
         (set_cursor ''grab'' (drawing_editor\<lparr>isPanningRef := True\<rparr>)) [pointer_at (210, 200)])
       \<lparr>transform := (transform (moves round_double full_cover
             (set_cursor ''grab'' (drawing_editor\<lparr>isPanningRef := True\<rparr>)) [pointer_at (210, 200)]))
          \<lparr>offsetX := round_double (offsetX (transform (moves round_double full_cover
             (set_cursor ''grab'' (drawing_editor\<lparr>isPanningRef := True\<rparr>)) [pointer_at (210, 200)]))
               + round_double (clientX (pointer_at (220, 190))
                   - fst (clientX (last [pointer_at (210, 200)]), clientY (last [pointer_at (210, 200)])))),
           offsetY := round_double (offsetY (transform (moves round_double full_cover
             (set_cursor ''grab'' (drawing_editor\<lparr>isPanningRef := True\<rparr>)) [pointer_at (210, 200)]))
               + round_double (clientY (pointer_at (220, 190))
                   - snd (clientX (last [pointer_at (210, 200)]), clientY (last [pointer_at (210, 200)]))))\<rparr>,
        lastPointRef := Some (clientX (pointer_at (220, 190)), clientY (pointer_at (220, 190)))\<rparr>"
    by (auto dest!: spec [where x = "(1 / 2, 1 / 2)"] spec [where x = "[pointer_at (210, 200)]"]
        spec [where x = "pointer_at (220, 190)"])
  then have c: "handlePointerMove round_double full_cover
       (moves round_double full_cover
          (set_cursor ''grab'' (drawing_editor\<lparr>isPanningRef := True\<rparr>)) [pointer_at (210, 200)])
       (pointer_at (220, 190))
     = drawing_editor
       \<lparr>isPanningRef := True,
        containerRef := Some \<lparr>rleft = 0, rtop = 0, rwidth = 400, rheight = 400, cursor = ''grab''\<rparr>,
        transform := \<lparr>scale = 1, offsetX = 419, offsetY = 389\<rparr>,
        lastPointRef := Some (220, 190)\<rparr>"
    unfolding m
    by (simp add: drawing_editor_def pointer_at_def n)
  have g: "canvasRef (moves round_double full_cover
          (set_cursor ''grab'' (drawing_editor\<lparr>isPanningRef := True\<rparr>)) [pointer_at (210, 200)])
     = canvasRef drawing_editor"
    unfolding m by simp
  from d p k l a b c g show ?thesis by blast
qed

section \<open>Exporting the mask\<close>

text \<open>The pixel dimensions of the canvas, which only a load changes.\<close>

lemma stroke_size [simp]:
  "cwidth (stroke rast path op style c) = cwidth c"
  "cheight (stroke rast path op style c) = cheight c"
  by (simp_all add: stroke_def)

lemma putImageData_size [simp]:
  "cwidth (putImageData img c) = cwidth c"
  "cheight (putImageData img c) = cheight c"
  by (simp_all add: putImageData_def)

lemma clearRect_size [simp]:
  "cwidth (clearRect c) = cwidth c"
  "cheight (clearRect c) = cheight c"
  by (simp_all add: clearRect_def)

lemma drawLine_size:
  "map_option cwidth (canvasRef (drawLine rd rast e x1 y1 x2 y2)) = map_option cwidth (canvasRef e)"
  "map_option cheight (canvasRef (drawLine rd rast e x1 y1 x2 y2)) = map_option cheight (canvasRef e)"
  by (auto simp add: drawLine_def getContext_def Let_def split: option.splits if_splits)

lemma handlePointerDown_size:
  "map_option cwidth (canvasRef (handlePointerDown rd rast e ev)) = map_option cwidth (canvasRef e)"
  "map_option cheight (canvasRef (handlePointerDown rd rast e ev)) = map_option cheight (canvasRef e)"
  by (simp_all add: handlePointerDown_def Let_def drawLine_size split: option.splits)

lemma handlePointerMove_size:
  "map_option cwidth (canvasRef (handlePointerMove rd rast e ev)) = map_option cwidth (canvasRef e)"
  "map_option cheight (canvasRef (handlePointerMove rd rast e ev)) = map_option cheight (canvasRef e)"
  by (simp_all add: handlePointerMove_def Let_def drawLine_size split: option.splits)

lemma saveHistory_canvas:
  "saveHistory e = Inr e' \<Longrightarrow> canvasRef e' = canvasRef e"
  by (auto simp add: saveHistory_def updateHistoryControls_def Let_def
      split: option.splits sum.splits)

lemma handlePointerUp_canvas:
  "handlePointerUp e = Inr e' \<Longrightarrow> canvasRef e' = canvasRef e"
  by (auto simp add: handlePointerUp_def dest: saveHistory_canvas split: if_splits sum.splits)

lemma handleWheel_canvas:
  "handleWheel rd e ev = Inr e' \<Longrightarrow> canvasRef e' = canvasRef e"
  by (auto simp add: handleWheel_def Let_def split: if_splits option.splits)

lemma handleUndo_size:
  "handleUndo e = Inr e' \<Longrightarrow>
   map_option cwidth (canvasRef e') = map_option cwidth (canvasRef e) \<and>
   map_option cheight (canvasRef e') = map_option cheight (canvasRef e)"
  by (auto simp add: handleUndo_def updateHistoryControls_def getContext_def Let_def
      split: if_splits option.splits)

lemma handleRedo_size:
  "handleRedo e = Inr e' \<Longrightarrow>
   map_option cwidth (canvasRef e') = map_option cwidth (canvasRef e) \<and>
   map_option cheight (canvasRef e') = map_option cheight (canvasRef e)"
  by (auto simp add: handleRedo_def updateHistoryControls_def getContext_def Let_def
      split: if_splits option.splits)

lemma handleKeyDown_size:
  "handleKeyDown e ev = Inr e' \<Longrightarrow>
   map_option cwidth (canvasRef e') = map_option cwidth (canvasRef e) \<and>
   map_option cheight (canvasRef e') = map_option cheight (canvasRef e)"
  by (auto simp add: handleKeyDown_def set_cursor_def dest: handleUndo_size handleRedo_size
      split: if_splits option.splits)

lemma handleKeyUp_canvas:
  "canvasRef (handleKeyUp e ev) = canvasRef e"
  by (simp add: handleKeyUp_def set_cursor_def split: option.splits)

lemma handleClear_size:
  "handleClear e = Inr e' \<Longrightarrow>
   map_option cwidth (canvasRef e') = map_option cwidth (canvasRef e) \<and>
   map_option cheight (canvasRef e') = map_option cheight (canvasRef e)"
  by (auto simp add: handleClear_def getContext_def dest!: saveHistory_canvas
      split: option.splits if_splits)

lemma handleZoom_canvas:
  "handleZoom rd e dir = Inr e' \<Longrightarrow> canvasRef e' = canvasRef e"
  by (auto simp add: handleZoom_def dest: handleWheel_canvas split: option.splits)

lemma step_size:
  assumes "step rd rast e ev = Inr e'" and "\<not> is_load ev"
  shows "map_option cwidth (canvasRef e') = map_option cwidth (canvasRef e) \<and>
         map_option cheight (canvasRef e') = map_option cheight (canvasRef e)"
proof (cases ev)
  case (PointerDown x)
  with assms show ?thesis by (auto simp add: handlePointerDown_size)
next
  case (PointerMove x)
  with assms show ?thesis by (auto simp add: handlePointerMove_size)
next
  case PointerUp
  with assms show ?thesis by (auto dest: handlePointerUp_canvas)
next
  case PointerLeave
  with assms show ?thesis by (auto dest: handlePointerUp_canvas)
next
  case (Wheel x)
  with assms show ?thesis by (auto dest: handleWheel_canvas)
next
  case (KeyDown x)
  with assms show ?thesis by (auto dest: handleKeyDown_size)
next
  case (KeyUp x)
  with assms show ?thesis by (auto simp add: handleKeyUp_canvas)
next
  case ClickUndo
  with assms show ?thesis by (auto dest: handleUndo_size)
next
  case ClickRedo
  with assms show ?thesis by (auto dest: handleRedo_size)
next
  case ClickClear
  with assms show ?thesis by (auto dest: handleClear_size)
next
  case (ClickZoom x)
  with assms show ?thesis by (auto dest: handleZoom_canvas)
next
  case (ImageLoad x)
  with assms show ?thesis by simp
qed (use assms in auto)

lemma run_size:
  "run rd rast e evs = Inr e' \<Longrightarrow> list_all (\<lambda>ev. \<not> is_load ev) evs \<Longrightarrow>
   map_option cwidth (canvasRef e') = map_option cwidth (canvasRef e) \<and>
   map_option cheight (canvasRef e') = map_option cheight (canvasRef e)"
proof (induction evs arbitrary: e)
  case Nil
  then show ?case by simp
next
  case (Cons ev evs)
  from Cons.prems(1) obtain e1 where s: "step rd rast e ev = Inr e1" and r: "run rd rast e1 evs = Inr e'"
    by (auto simp add: and_then_def split: sum.splits)
  from Cons.prems(2) have "\<not> is_load ev" and "list_all (\<lambda>ev. \<not> is_load ev) evs"
    by simp_all
  with step_size [OF s] Cons.IH [OF r] show ?case by simp
qed

lemma imageOnload_size:
  assumes "canvasRef e = Some c" and "imageOnload rd e im = Inr e1"
  shows "map_option cwidth (canvasRef e1) = Some (naturalWidth im) \<and>
         map_option cheight (canvasRef e1) = Some (naturalHeight im)"
proof -
  let ?e0 = "case imageRef e of None \<Rightarrow> e | Some x \<Rightarrow> e\<lparr>imageRef := Some im\<rparr>"
  have c0: "canvasRef ?e0 = Some c"
    using assms(1) by (simp split: option.splits)
  with assms(2) show ?thesis
    by (auto simp add: imageOnload_def Let_def resize_canvas_def updateHistoryControls_def
        split: option.splits sum.splits)
qed

text \<open>
  C4, as the specification states it, fails. Before any image has been loaded, the history
  is still empty and the canvas has its initial size of 300 by 150; \<open>handleSave\<close> does not
  fail there, it hands the blank bitmap of that size to the host.
\<close>

theorem C4_export_before_load_counterexample:
  "historyRef unloaded_editor = \<lparr>stack = [], index = - 1\<rparr> \<and>
   handleSave unloaded_editor = Some (toDataURL (blank_canvas 300 150)) \<and>
   iwidth (toDataURL (blank_canvas 300 150)) = 300 \<and>
   iheight (toDataURL (blank_canvas 300 150)) = 150"
  by (simp add: unloaded_editor_def mounted_def handleSave_def toDataURL_def blank_canvas_def)

text \<open>
  C4, amended: \<open>handleSave\<close> has no failure. Whenever the canvas element exists, loaded or
  not, it hands the host the lossless raster of the canvas, at the pixel dimensions that the
  canvas has; without a canvas element it does nothing. After a load that did not throw,
  in an editor with a canvas, the raster has the natural dimensions of the image, whatever
  the view, and keeps them over every run of events in which no other image is loaded.
\<close>

theorem C4_export_has_canvas_size:
  "handleSave e = map_option toDataURL (canvasRef e) \<and>
   handleSave (e\<lparr>transform := t\<rparr>) = handleSave e \<and>
   (\<forall>c e1 evs e2.
      canvasRef e = Some c \<and> imageOnload rd e im = Inr e1 \<and>
      list_all (\<lambda>ev. \<not> is_load ev) evs \<and> run rd rast e1 evs = Inr e2 \<longrightarrow>
      (\<exists>png. handleSave e2 = Some png \<and>
         iwidth png = naturalWidth im \<and> iheight png = naturalHeight im))"
proof (intro conjI allI impI)
  show "handleSave e = map_option toDataURL (canvasRef e)"
    by (simp add: handleSave_def split: option.splits)
next
  show "handleSave (e\<lparr>transform := t\<rparr>) = handleSave e"
    by (simp add: handleSave_def)
next
  fix c e1 evs e2
  assume a: "canvasRef e = Some c \<and> imageOnload rd e im = Inr e1 \<and>
      list_all (\<lambda>ev. \<not> is_load ev) evs \<and> run rd rast e1 evs = Inr e2"
  then have "map_option cwidth (canvasRef e1) = Some (naturalWidth im) \<and>
         map_option cheight (canvasRef e1) = Some (naturalHeight im)"
    using imageOnload_size by blast
  moreover from a have "map_option cwidth (canvasRef e2) = map_option cwidth (canvasRef e1) \<and>
      map_option cheight (canvasRef e2) = map_option cheight (canvasRef e1)"
    using run_size by blast
  ultimately show "\<exists>png. handleSave e2 = Some png \<and>
         iwidth png = naturalWidth im \<and> iheight png = naturalHeight im"
    by (auto simp add: handleSave_def toDataURL_def split: option.splits)
qed

theorem C4_export_has_canvas_size_witness:
  "canvasRef small_editor = Some (blank_canvas 2 2) \<and>
   imageOnload round_double small_editor one_pixel = Inr loaded_editor \<and>
   run round_double full_cover loaded_editor
     [Wheel (wheel_at 100 100 (- 100)), PointerDown (pointer_at (200, 200)), PointerUp]
     = Inr (loaded_editor
         \<lparr>canvasRef := Some \<lparr>cwidth = 1, cheight = 1, cdata = [pink_once], has2d = True\<rparr>,
          historyRef := \<lparr>stack = [\<lparr>iwidth = 1, iheight = 1, idata = [transparent]\<rparr>,
                                   \<lparr>iwidth = 1, iheight = 1, idata = [pink_once]\<rparr>],
                         index = 1\<rparr>,
          historyControls := \<lparr>canUndo = True, canRedo = False\<rparr>,
          transform :=
            \<lparr>scale = 2476979795053773 / 2251799813685248,
             offsetX = 3684683367002931 / 17592186044416,
             offsetY = 3684683367002931 / 17592186044416\<rparr>\<rparr>) \<and>
   handleSave (loaded_editor
         \<lparr>canvasRef := Some \<lparr>cwidth = 1, cheight = 1, cdata = [pink_once], has2d = True\<rparr>,
          historyRef := \<lparr>stack = [\<lparr>iwidth = 1, iheight = 1, idata = [transparent]\<rparr>,
                                   \<lparr>iwidth = 1, iheight = 1, idata = [pink_once]\<rparr>],
                         index = 1\<rparr>,
          historyControls := \<lparr>canUndo = True, canRedo = False\<rparr>,
          transform :=
            \<lparr>scale = 2476979795053773 / 2251799813685248,
             offsetX = 3684683367002931 / 17592186044416,
             offsetY = 3684683367002931 / 17592186044416\<rparr>\<rparr>)
     = Some \<lparr>iwidth = 1, iheight = 1, idata = [pink_once]\<rparr>"
proof -
  let ?e2 = "loaded_editor
         \<lparr>canvasRef := Some \<lparr>cwidth = 1, cheight = 1, cdata = [pink_once], has2d = True\<rparr>,
          historyRef := \<lparr>stack = [\<lparr>iwidth = 1, iheight = 1, idata = [transparent]\<rparr>,
                                   \<lparr>iwidth = 1, iheight = 1, idata = [pink_once]\<rparr>],
                         index = 1\<rparr>,
          historyControls := \<lparr>canUndo = True, canRedo = False\<rparr>,
          transform :=
            \<lparr>scale = 2476979795053773 / 2251799813685248,
             offsetX = 3684683367002931 / 17592186044416,
             offsetY = 3684683367002931 / 17592186044416\<rparr>\<rparr>"
  let ?evs = "[Wheel (wheel_at 100 100 (- 100)), PointerDown (pointer_at (200, 200)), PointerUp]"
  have r: "run round_double full_cover loaded_editor ?evs = Inr ?e2"
    by code_simp
  have h: "canvasRef small_editor = Some (blank_canvas 2 2) \<and>
      imageOnload round_double small_editor one_pixel = Inr loaded_editor \<and>
      list_all (\<lambda>ev. \<not> is_load ev) ?evs \<and> run round_double full_cover loaded_editor ?evs = Inr ?e2"
    using small_editor_canvas(1) loaded_editor_loaded r by simp
  note t = C4_export_has_canvas_size [where e = small_editor and im = one_pixel and rd = round_double and rast = full_cover]
  from t h have "\<exists>png. handleSave ?e2 = Some png \<and>
         iwidth png = naturalWidth one_pixel \<and> iheight png = naturalHeight one_pixel"
    by blast
  then have "handleSave ?e2 = Some \<lparr>iwidth = 1, iheight = 1, idata = [pink_once]\<rparr>"
    by (simp add: handleSave_def toDataURL_def loaded_editor_def)
  with h show ?thesis by blast
qed

section \<open>The brush: drawing and erasing\<close>

lemma brush_path_opacity [simp]:
  "brush_path rd (e\<lparr>brushOpacity := v\<rparr>) x1 y1 x2 y2 = brush_path rd e x1 y1 x2 y2"
  by (simp add: brush_path_def)

lemma drawLine_erase:
  assumes "canvasRef e = Some c" and "has2d c" and "isErasing e"
  shows "canvasRef (drawLine rd rast e x1 y1 x2 y2) =
     Some (c\<lparr>cdata :=
       map (\<lambda>i. composite DestinationOut
                   \<lparr>red = 0, green = 0, blue = 0,
                    alpha = rast (brush_path rd e x1 y1 x2 y2) (i mod cwidth c) (i div cwidth c)\<rparr>
                   (cdata c ! i))
           [0..<length (cdata c)]\<rparr>)"
  using assms by (simp add: drawLine_def getContext_def stroke_def source_pixel_def Let_def)

lemma drawLine_draw:
  assumes "canvasRef e = Some c" and "has2d c" and "\<not> isErasing e"
  shows "canvasRef (drawLine rd rast e x1 y1 x2 y2) =
     Some (c\<lparr>cdata :=
       map (\<lambda>i. composite SourceOver
                   (source_pixel \<lparr>styleR = 236, styleG = 72, styleB = 153, styleA = brushOpacity e\<rparr>
                      (rast (brush_path rd e x1 y1 x2 y2) (i mod cwidth c) (i div cwidth c)))
                   (cdata c ! i))
           [0..<length (cdata c)]\<rparr>)"
  using assms by (simp add: drawLine_def getContext_def stroke_def Let_def)

text \<open>
  C8: in erase mode the stroke removes from every pixel the share that the stroke covers:
  the colour and the alpha of the pixel are multiplied by one minus the coverage. The brush
  opacity does not enter: the canvas after the stroke is the same for every opacity, a
  pixel that the stroke covers fully becomes transparent, and a transparent pixel stays
  transparent. In draw mode the same stroke lays the brush colour over the pixel at the
  brush opacity times the coverage.
\<close>

theorem C8_erase_ignores_opacity:
  assumes "canvasRef e = Some c" and "has2d c" and "i < length (cdata c)"
  shows "(isErasing e \<longrightarrow>
           (\<exists>c'. canvasRef (drawLine rd rast e x1 y1 x2 y2) = Some c' \<and>
              canvasRef (drawLine rd rast (e\<lparr>brushOpacity := v\<rparr>) x1 y1 x2 y2) = Some c' \<and>
              length (cdata c') = length (cdata c) \<and>
              cdata c' ! i =
                \<lparr>red = red (cdata c ! i) *
                         (1 - rast (brush_path rd e x1 y1 x2 y2) (i mod cwidth c) (i div cwidth c)),
                 green = green (cdata c ! i) *
                         (1 - rast (brush_path rd e x1 y1 x2 y2) (i mod cwidth c) (i div cwidth c)),
                 blue = blue (cdata c ! i) *
                         (1 - rast (brush_path rd e x1 y1 x2 y2) (i mod cwidth c) (i div cwidth c)),
                 alpha = alpha (cdata c ! i) *
                         (1 - rast (brush_path rd e x1 y1 x2 y2) (i mod cwidth c) (i div cwidth c))\<rparr> \<and>
              (rast (brush_path rd e x1 y1 x2 y2) (i mod cwidth c) (i div cwidth c) = 1 \<longrightarrow>
                 cdata c' ! i = transparent) \<and>
              (cdata c ! i = transparent \<longrightarrow> cdata c' ! i = transparent) \<and>
              (list_all (\<lambda>p. p = transparent) (cdata c) \<longrightarrow> c' = c))) \<and>
         (\<not> isErasing e \<longrightarrow>
           (\<exists>c'. canvasRef (drawLine rd rast e x1 y1 x2 y2) = Some c' \<and>
              alpha (cdata c' ! i) =
                brushOpacity e * rast (brush_path rd e x1 y1 x2 y2) (i mod cwidth c) (i div cwidth c) +
                alpha (cdata c ! i) *
                  (1 - brushOpacity e *
                         rast (brush_path rd e x1 y1 x2 y2) (i mod cwidth c) (i div cwidth c))))"
proof (intro conjI impI)
  assume er: "isErasing e"
  let ?cov = "\<lambda>i. rast (brush_path rd e x1 y1 x2 y2) (i mod cwidth c) (i div cwidth c)"
  let ?c' = "c\<lparr>cdata :=
       map (\<lambda>i. composite DestinationOut \<lparr>red = 0, green = 0, blue = 0, alpha = ?cov i\<rparr> (cdata c ! i))
           [0..<length (cdata c)]\<rparr>"
  have a: "canvasRef (drawLine rd rast e x1 y1 x2 y2) = Some ?c'"
    using assms(1,2) er by (rule drawLine_erase)
  have "canvasRef (drawLine rd rast (e\<lparr>brushOpacity := v\<rparr>) x1 y1 x2 y2) =
     Some (c\<lparr>cdata :=
       map (\<lambda>i. composite DestinationOut
                   \<lparr>red = 0, green = 0, blue = 0,
                    alpha = rast (brush_path rd (e\<lparr>brushOpacity := v\<rparr>) x1 y1 x2 y2)
                              (i mod cwidth c) (i div cwidth c)\<rparr>
                   (cdata c ! i))
           [0..<length (cdata c)]\<rparr>)"
    using assms(1,2) er by (intro drawLine_erase) simp_all
  then have b: "canvasRef (drawLine rd rast (e\<lparr>brushOpacity := v\<rparr>) x1 y1 x2 y2) = Some ?c'"
    by simp
  have l: "length (cdata ?c') = length (cdata c)"
    by simp
  have p: "cdata ?c' ! i =
      \<lparr>red = red (cdata c ! i) * (1 - ?cov i), green = green (cdata c ! i) * (1 - ?cov i),
       blue = blue (cdata c ! i) * (1 - ?cov i), alpha = alpha (cdata c ! i) * (1 - ?cov i)\<rparr>"
    using assms(3) by simp
  have f: "?cov i = 1 \<longrightarrow> cdata ?c' ! i = transparent"
    using p by (simp add: transparent_def)
  have t: "cdata c ! i = transparent \<longrightarrow> cdata ?c' ! i = transparent"
    using p by (simp add: transparent_def)
  have w: "list_all (\<lambda>p. p = transparent) (cdata c) \<longrightarrow> ?c' = c"
  proof
    assume all: "list_all (\<lambda>p. p = transparent) (cdata c)"
    have "map (\<lambda>i. composite DestinationOut \<lparr>red = 0, green = 0, blue = 0, alpha = ?cov i\<rparr> (cdata c ! i))
           [0..<length (cdata c)] = cdata c"
    proof (rule nth_equalityI)
      show "length (map (\<lambda>i. composite DestinationOut \<lparr>red = 0, green = 0, blue = 0, alpha = ?cov i\<rparr>
          (cdata c ! i)) [0..<length (cdata c)]) = length (cdata c)"
        by simp
    next
      fix j
      assume "j < length (map (\<lambda>i. composite DestinationOut \<lparr>red = 0, green = 0, blue = 0, alpha = ?cov i\<rparr>
          (cdata c ! i)) [0..<length (cdata c)])"
      then have j: "j < length (cdata c)" by simp
      with all have "cdata c ! j = transparent"
        by (simp add: list_all_length)
      with j show "map (\<lambda>i. composite DestinationOut \<lparr>red = 0, green = 0, blue = 0, alpha = ?cov i\<rparr>
          (cdata c ! i)) [0..<length (cdata c)] ! j = cdata c ! j"
        by (simp add: transparent_def)
    qed
    then show "?c' = c" by simp
  qed
  from a b l p f t w
  show "\<exists>c'. canvasRef (drawLine rd rast e x1 y1 x2 y2) = Some c' \<and>
              canvasRef (drawLine rd rast (e\<lparr>brushOpacity := v\<rparr>) x1 y1 x2 y2) = Some c' \<and>
              length (cdata c') = length (cdata c) \<and>
              cdata c' ! i =
                \<lparr>red = red (cdata c ! i) * (1 - ?cov i), green = green (cdata c ! i) * (1 - ?cov i),
                 blue = blue (cdata c ! i) * (1 - ?cov i), alpha = alpha (cdata c ! i) * (1 - ?cov i)\<rparr> \<and>
              (?cov i = 1 \<longrightarrow> cdata c' ! i = transparent) \<and>
              (cdata c ! i = transparent \<longrightarrow> cdata c' ! i = transparent) \<and>
              (list_all (\<lambda>p. p = transparent) (cdata c) \<longrightarrow> c' = c)"
    by blast
next
  assume dr: "\<not> isErasing e"
  let ?cov = "\<lambda>i. rast (brush_path rd e x1 y1 x2 y2) (i mod cwidth c) (i div cwidth c)"
  let ?c' = "c\<lparr>cdata :=
       map (\<lambda>i. composite SourceOver
                   (source_pixel \<lparr>styleR = 236, styleG = 72, styleB = 153, styleA = brushOpacity e\<rparr> (?cov i))
                   (cdata c ! i))
           [0..<length (cdata c)]\<rparr>"
  have a: "canvasRef (drawLine rd rast e x1 y1 x2 y2) = Some ?c'"
    using assms(1,2) dr by (rule drawLine_draw)
  have "alpha (cdata ?c' ! i) =
      brushOpacity e * ?cov i + alpha (cdata c ! i) * (1 - brushOpacity e * ?cov i)"
    using assms(3) by (simp add: source_pixel_def)
  with a show "\<exists>c'. canvasRef (drawLine rd rast e x1 y1 x2 y2) = Some c' \<and>
              alpha (cdata c' ! i) =
                brushOpacity e * ?cov i + alpha (cdata c ! i) * (1 - brushOpacity e * ?cov i)"
    by blast
qed

lemma erasing_editor_reached:
  "run round_double full_cover drawing_editor [PointerUp, SetIsErasing True] = Inr erasing_editor"
  by (simp add: and_then_def drawing_editor_def erasing_editor_def handlePointerUp_def
      saveHistory_def getContext_def getImageData_def slice0_def updateHistoryControls_def Let_def)

theorem C8_erase_ignores_opacity_witness:
  "canvasRef erasing_editor = Some \<lparr>cwidth = 1, cheight = 1, cdata = [pink_twice], has2d = True\<rparr> \<and>
   isErasing erasing_editor \<and> brushOpacity erasing_editor = 1 / 2 \<and>
   canvasRef (drawLine round_double full_cover erasing_editor (1 / 2) (1 / 2) (1 / 2) (1 / 2))
     = Some \<lparr>cwidth = 1, cheight = 1, cdata = [transparent], has2d = True\<rparr> \<and>
   canvasRef (drawLine round_double full_cover (erasing_editor\<lparr>brushOpacity := 1 / 10\<rparr>) (1 / 2) (1 / 2) (1 / 2) (1 / 2))
     = Some \<lparr>cwidth = 1, cheight = 1, cdata = [transparent], has2d = True\<rparr> \<and>
   canvasRef (drawLine round_double full_cover (erasing_editor\<lparr>isErasing := False\<rparr>) (1 / 2) (1 / 2) (1 / 2) (1 / 2))
     = Some \<lparr>cwidth = 1, cheight = 1,
             cdata = [\<lparr>red = 413 / 510, green = 21 / 85, blue = 21 / 40, alpha = 7 / 8\<rparr>],
             has2d = True\<rparr>"
proof -
  let ?c = "\<lparr>cwidth = 1, cheight = 1, cdata = [pink_twice], has2d = True\<rparr>"
  have c: "canvasRef erasing_editor = Some ?c" and h: "has2d ?c" and i: "0 < length (cdata ?c)"
    and er: "isErasing erasing_editor" and op: "brushOpacity erasing_editor = 1 / 2"
    by (simp_all add: erasing_editor_def drawing_editor_def)
  note t = C8_erase_ignores_opacity [OF c h i, where rd = round_double and rast = full_cover and v = "1 / 10"
      and ?x1.0 = "1 / 2" and ?y1.0 = "1 / 2" and ?x2.0 = "1 / 2" and ?y2.0 = "1 / 2"]
  from t er obtain c' where
    a: "canvasRef (drawLine round_double full_cover erasing_editor (1 / 2) (1 / 2) (1 / 2) (1 / 2)) = Some c'"
    and b: "canvasRef (drawLine round_double full_cover (erasing_editor\<lparr>brushOpacity := 1 / 10\<rparr>)
        (1 / 2) (1 / 2) (1 / 2) (1 / 2)) = Some c'"
    and f: "full_cover (brush_path round_double erasing_editor (1 / 2) (1 / 2) (1 / 2) (1 / 2))
        (0 mod cwidth ?c) (0 div cwidth ?c) = 1 \<longrightarrow> cdata c' ! 0 = transparent"
    and l: "length (cdata c') = length (cdata ?c)"
    by blast
  have d: "canvasRef (drawLine round_double full_cover erasing_editor (1 / 2) (1 / 2) (1 / 2) (1 / 2))
     = Some \<lparr>cwidth = 1, cheight = 1, cdata = [transparent], has2d = True\<rparr>"
    by (simp add: erasing_editor_def drawing_editor_def drawLine_def brush_path_def getContext_def
        stroke_def source_pixel_def full_cover_def pink_twice_def transparent_def Let_def)
  have g: "canvasRef (drawLine round_double full_cover (erasing_editor\<lparr>isErasing := False\<rparr>)
        (1 / 2) (1 / 2) (1 / 2) (1 / 2))
     = Some \<lparr>cwidth = 1, cheight = 1,
             cdata = [\<lparr>red = 413 / 510, green = 21 / 85, blue = 21 / 40, alpha = 7 / 8\<rparr>],
             has2d = True\<rparr>"
    by (simp add: erasing_editor_def drawing_editor_def drawLine_def brush_path_def getContext_def
        stroke_def source_pixel_def full_cover_def pink_twice_def Let_def)
  from a b d have "canvasRef (drawLine round_double full_cover (erasing_editor\<lparr>brushOpacity := 1 / 10\<rparr>)
        (1 / 2) (1 / 2) (1 / 2) (1 / 2))
     = Some \<lparr>cwidth = 1, cheight = 1, cdata = [transparent], has2d = True\<rparr>"
    by simp
  with c er op d g show ?thesis by blast
qed

end
